theory Spec2Isabelle
  imports Complex_Main
begin

section \<open>Data model of \<open>pkg/discovery/discovery.go\<close>\<close>

text \<open>
  The struct declarations of the package (\<open>MetaDataAndOwnerReferences\<close>,
  \<open>CompositionTreeNode\<close>, \<open>Provenance\<close>, \<open>ClusterProvenance\<close>, \<open>Composition\<close>) live in a
  file that is not part of the sources at hand. The records below carry exactly the fields
  that \<open>discovery.go\<close> reads and writes. Where two structs use the same field name, the
  second one is prefixed (\<open>ProvStatus\<close> is \<open>Provenance.Status\<close>, \<open>CompLevel\<close> is
  \<open>Composition.Level\<close>, and so on).

  Go strings are byte sequences, and so is \<^typ>\<open>string\<close>. Go's \<open>int\<close> is modelled by
  \<^typ>\<open>int\<close>: the only arithmetic on it is \<open>level + 1\<close>, once per nesting level,
  starting from \<open>1\<close>.
\<close>

record MetaDataAndOwnerReferences =
  MetaDataName :: string
  OwnerReferenceName :: string
  OwnerReferenceKind :: string
  OwnerReferenceAPIVersion :: string
  Status :: string

record CompositionTreeNode =
  Level :: int
  ChildKind :: string
  Children :: "MetaDataAndOwnerReferences list"

record Provenance =
  Kind :: string
  Name :: string
  ProvStatus :: string
  CompositionTree :: "CompositionTreeNode list"

datatype Composition =
  Composition (CompLevel: int) (CompKind: string) (CompName: string) (CompStatus: string)
    (CompChildren: "Composition list")

text \<open>
  \<open>ClusterProvenance\<close> is a mutex together with the slice \<open>clusterProvenance\<close>. The
  sequential model of an operation is a function on the slice.
\<close>

type_synonym ClusterProvenance = "Provenance list"



section \<open>Strings\<close>

text \<open>
  \<open>strings.ToLower\<close>, on bytes: the letters \<open>A\<close> to \<open>Z\<close> are mapped to \<open>a\<close> to \<open>z\<close>, every
  other byte is kept. This is what Go computes on ASCII strings (Kubernetes kinds and
  resource names are ASCII); Go also lowers letters outside ASCII, which the model keeps.
\<close>

definition toLowerChar :: "char \<Rightarrow> char" where
  "toLowerChar c =
     (let n = (of_char c :: nat) in if 65 \<le> n \<and> n \<le> 90 then char_of (n + 32) else c)"

definition ToLower :: "string \<Rightarrow> string" where
  "ToLower s = map toLowerChar s"

text \<open>\<open>strings.HasPrefix\<close> and \<open>strings.Contains\<close>.\<close>

definition HasPrefix :: "string \<Rightarrow> string \<Rightarrow> bool" where
  "HasPrefix s pre = (take (length pre) s = pre)"

fun Contains :: "string \<Rightarrow> string \<Rightarrow> bool" where
  "Contains [] substr = (substr = [])"
| "Contains (c # s) substr = (HasPrefix (c # s) substr \<or> Contains s substr)"

text \<open>
  A Go map from strings to strings is an association list with one entry per key; the
  order of the list is the order in which a \<open>range\<close> loop visits the entries (Go leaves
  that order unspecified, so a property of the program has to hold for every order).
  Indexing a missing key gives the zero value, the empty string.
\<close>

definition lookupString :: "(string \<times> string) list \<Rightarrow> string \<Rightarrow> string" where
  "lookupString m k = (case map_of m k of None \<Rightarrow> [] | Some v \<Rightarrow> v)"


section \<open>Listing documents: \<open>parseMetaData\<close> and \<open>filterChildren\<close>\<close>

text \<open>
  What \<open>json.Unmarshal\<close> decodes into \<open>interface{}\<close>: \<open>nil\<close>, \<open>bool\<close>, \<open>float64\<close>,
  \<open>string\<close>, \<open>[]interface{}\<close> and \<open>map[string]interface{}\<close>. A decoded number is a finite
  \<open>float64\<close>; the program only compares such numbers with \<open>==\<close> and \<open>>\<close>, which agree with
  the comparison of the reals they denote, so a number carries its value as a real. An
  object is the list of its entries in the order in which \<open>range\<close> visits them.
\<close>

datatype json =
  JNull
| JBool bool
| JNumber real
| JString string
| JArray "json list"
| JObject "(string \<times> json) list"

text \<open>The run-time panics of the package; a panic ends the function and every caller.\<close>

datatype panic =
  InterfaceConversion
| NilPointerDereference
| TokenFileUnreadable
| CACertFileUnreadable
| UrlParseFailed

definition emptyMetaDataRef :: MetaDataAndOwnerReferences where
  "emptyMetaDataRef = \<lparr>MetaDataName = [], OwnerReferenceName = [], OwnerReferenceKind = [],
                        OwnerReferenceAPIVersion = [], Status = []\<rparr>"

text \<open>
  The loop over the keys of one owner reference. The source tests the key with three
  separate \<open>if\<close>s; at most one of them holds, so they are written as a chain. A type
  assertion \<open>ovalue.(string)\<close> on anything but a string panics.
\<close>

fun ownerReferenceFields ::
  "(string \<times> json) list \<Rightarrow> MetaDataAndOwnerReferences \<Rightarrow> panic + MetaDataAndOwnerReferences"
where
  "ownerReferenceFields [] metaDataRef = Inr metaDataRef"
| "ownerReferenceFields ((okey, ovalue) # rest) metaDataRef =
     (if okey = ''name'' then
        (case ovalue of
           JString s \<Rightarrow> ownerReferenceFields rest (metaDataRef\<lparr>OwnerReferenceName := s\<rparr>)
         | _ \<Rightarrow> Inl InterfaceConversion)
      else if okey = ''kind'' then
        (case ovalue of
           JString s \<Rightarrow> ownerReferenceFields rest (metaDataRef\<lparr>OwnerReferenceKind := s\<rparr>)
         | _ \<Rightarrow> Inl InterfaceConversion)
      else if okey = ''apiVersion'' then
        (case ovalue of
           JString s \<Rightarrow> ownerReferenceFields rest (metaDataRef\<lparr>OwnerReferenceAPIVersion := s\<rparr>)
         | _ \<Rightarrow> Inl InterfaceConversion)
      else ownerReferenceFields rest metaDataRef)"

fun ownerReferences ::
  "json list \<Rightarrow> MetaDataAndOwnerReferences \<Rightarrow> panic + MetaDataAndOwnerReferences"
where
  "ownerReferences [] metaDataRef = Inr metaDataRef"
| "ownerReferences (ownerReference # rest) metaDataRef =
     (case ownerReference of
        JObject ownerReferenceMap \<Rightarrow>
          (case ownerReferenceFields ownerReferenceMap metaDataRef of
             Inl p \<Rightarrow> Inl p
           | Inr metaDataRef' \<Rightarrow> ownerReferences rest metaDataRef')
      | _ \<Rightarrow> Inl InterfaceConversion)"

text \<open>The loop over the keys of \<open>metadata\<close>.\<close>

fun metadataFields ::
  "(string \<times> json) list \<Rightarrow> MetaDataAndOwnerReferences \<Rightarrow> panic + MetaDataAndOwnerReferences"
where
  "metadataFields [] metaDataRef = Inr metaDataRef"
| "metadataFields ((mkey, mvalue) # rest) metaDataRef =
     (if mkey = ''ownerReferences'' then
        (case mvalue of
           JArray ownerReferencesList \<Rightarrow>
             (case ownerReferences ownerReferencesList metaDataRef of
                Inl p \<Rightarrow> Inl p
              | Inr metaDataRef' \<Rightarrow> metadataFields rest metaDataRef')
         | _ \<Rightarrow> Inl InterfaceConversion)
      else if mkey = ''name'' then
        (case mvalue of
           JString s \<Rightarrow> metadataFields rest (metaDataRef\<lparr>MetaDataName := s\<rparr>)
         | _ \<Rightarrow> Inl InterfaceConversion)
      else metadataFields rest metaDataRef)"

text \<open>
  The loop over the keys of \<open>status\<close>. Its state is the snapshot and the three local
  variables \<open>replicas\<close>, \<open>readyReplicas\<close> and \<open>availableReplicas\<close>.
\<close>

fun statusFields ::
  "(string \<times> json) list \<Rightarrow> MetaDataAndOwnerReferences \<times> real \<times> real \<times> real \<Rightarrow>
     panic + MetaDataAndOwnerReferences \<times> real \<times> real \<times> real"
where
  "statusFields [] st = Inr st"
| "statusFields ((skey, svalue) # rest) (metaDataRef, replicas, readyReplicas, availableReplicas) =
     (if skey = ''phase'' then
        (case svalue of
           JString s \<Rightarrow>
             statusFields rest (metaDataRef\<lparr>Status := s\<rparr>, replicas, readyReplicas, availableReplicas)
         | _ \<Rightarrow> Inl InterfaceConversion)
      else if skey = ''replicas'' then
        (case svalue of
           JNumber x \<Rightarrow> statusFields rest (metaDataRef, x, readyReplicas, availableReplicas)
         | _ \<Rightarrow> Inl InterfaceConversion)
      else if skey = ''readyReplicas'' then
        (case svalue of
           JNumber x \<Rightarrow> statusFields rest (metaDataRef, replicas, x, availableReplicas)
         | _ \<Rightarrow> Inl InterfaceConversion)
      else if skey = ''availableReplicas'' then
        (case svalue of
           JNumber x \<Rightarrow> statusFields rest (metaDataRef, replicas, readyReplicas, x)
         | _ \<Rightarrow> Inl InterfaceConversion)
      else statusFields rest (metaDataRef, replicas, readyReplicas, availableReplicas))"

text \<open>The branch \<open>if key == "metadata"\<close> of the loop over an item's keys.\<close>

definition processMetadata ::
  "json \<Rightarrow> MetaDataAndOwnerReferences \<Rightarrow> panic + MetaDataAndOwnerReferences"
where
  "processMetadata value metaDataRef =
     (case value of
        JObject metadataMap \<Rightarrow> metadataFields metadataMap metaDataRef
      | _ \<Rightarrow> Inl InterfaceConversion)"

text \<open>The branch \<open>if key == "status"\<close>: the three counters start at zero.\<close>

definition processStatus ::
  "json \<Rightarrow> MetaDataAndOwnerReferences \<Rightarrow> panic + MetaDataAndOwnerReferences"
where
  "processStatus value metaDataRef =
     (case value of
        JObject statusMap \<Rightarrow>
          (case statusFields statusMap (metaDataRef, 0, 0, 0) of
             Inl p \<Rightarrow> Inl p
           | Inr (metaDataRef', replicas, readyReplicas, availableReplicas) \<Rightarrow>
               Inr (if replicas > 0
                    then (if replicas = availableReplicas \<and> replicas = readyReplicas
                          then metaDataRef'\<lparr>Status := ''Ready''\<rparr> else metaDataRef')
                    else metaDataRef'))
      | _ \<Rightarrow> Inl InterfaceConversion)"

text \<open>
  The loop \<open>for key, value := range itemConverted\<close>. Its state is \<open>metaDataRef\<close>,
  \<open>metadataProcessed\<close> and \<open>statusProcessed\<close>; the append to \<open>metaDataSlice\<close> stands inside
  the loop, so it is tried once per key.
\<close>

fun itemFields ::
  "bool \<Rightarrow> (string \<times> json) list \<Rightarrow> MetaDataAndOwnerReferences \<times> bool \<times> bool \<Rightarrow>
     MetaDataAndOwnerReferences list \<Rightarrow> panic + MetaDataAndOwnerReferences list"
where
  "itemFields statusKeyExists [] st metaDataSlice = Inr metaDataSlice"
| "itemFields statusKeyExists ((key, value) # rest)
       (metaDataRef, metadataProcessed, statusProcessed) metaDataSlice =
     (case (if key = ''metadata''
            then (case processMetadata value metaDataRef of
                    Inl p \<Rightarrow> Inl p | Inr r \<Rightarrow> Inr (r, True))
            else Inr (metaDataRef, metadataProcessed)) of
        Inl p \<Rightarrow> Inl p
      | Inr (metaDataRef1, metadataProcessed1) \<Rightarrow>
          (case (if key = ''status''
                 then (case processStatus value metaDataRef1 of
                         Inl p \<Rightarrow> Inl p | Inr r \<Rightarrow> Inr (r, True))
                 else Inr (metaDataRef1, statusProcessed)) of
             Inl p \<Rightarrow> Inl p
           | Inr (metaDataRef2, statusProcessed1) \<Rightarrow>
               itemFields statusKeyExists rest
                 (metaDataRef2, metadataProcessed1, statusProcessed1)
                 (if statusKeyExists
                  then (if metadataProcessed1 \<and> statusProcessed1
                        then metaDataSlice @ [metaDataRef2] else metaDataSlice)
                  else (if metadataProcessed1
                        then metaDataSlice @ [metaDataRef2] else metaDataSlice))))"

text \<open>The loop over \<open>items\<close>; \<open>item.(map[string]interface{})\<close> panics on a non-object.\<close>

fun itemsLoop ::
  "json list \<Rightarrow> MetaDataAndOwnerReferences list \<Rightarrow> panic + MetaDataAndOwnerReferences list"
where
  "itemsLoop [] metaDataSlice = Inr metaDataSlice"
| "itemsLoop (item # rest) metaDataSlice =
     (case item of
        JObject itemConverted \<Rightarrow>
          (case itemFields (map_of itemConverted ''status'' \<noteq> None) itemConverted
                  (emptyMetaDataRef, False, False) metaDataSlice of
             Inl p \<Rightarrow> Inl p
           | Inr metaDataSlice' \<Rightarrow> itemsLoop rest metaDataSlice')
      | _ \<Rightarrow> Inl InterfaceConversion)"

text \<open>
  \<open>parseMetaData\<close> takes the document that \<open>json.Unmarshal\<close> decodes from the content. The
  error of \<open>json.Unmarshal\<close> is ignored and leaves \<open>result\<close> nil, so content that is not a
  JSON object behaves like a document without \<open>items\<close> (\<open>JNull\<close> stands for content that
  is not JSON at all).
\<close>

definition parseMetaData :: "json \<Rightarrow> panic + MetaDataAndOwnerReferences list" where
  "parseMetaData content =
     (case content of
        JObject result \<Rightarrow>
          (case map_of result ''items'' of
             Some (JArray items) \<Rightarrow> itemsLoop items []
           | _ \<Rightarrow> Inr [])
      | _ \<Rightarrow> Inr [])"

fun filterChildrenLoop ::
  "MetaDataAndOwnerReferences list \<Rightarrow> string \<Rightarrow> MetaDataAndOwnerReferences list \<Rightarrow>
     MetaDataAndOwnerReferences list"
where
  "filterChildrenLoop [] parentResourceName metaDataSliceToReturn = metaDataSliceToReturn"
| "filterChildrenLoop (metaDataRef # rest) parentResourceName metaDataSliceToReturn =
     (if OwnerReferenceName metaDataRef = parentResourceName
      then (if MetaDataName metaDataRef \<in> set (map MetaDataName metaDataSliceToReturn)
            then filterChildrenLoop rest parentResourceName metaDataSliceToReturn
            else filterChildrenLoop rest parentResourceName
                   (metaDataSliceToReturn @ [metaDataRef]))
      else filterChildrenLoop rest parentResourceName metaDataSliceToReturn)"

definition filterChildren ::
  "MetaDataAndOwnerReferences list \<Rightarrow> string \<Rightarrow> MetaDataAndOwnerReferences list"
where
  "filterChildren metaDataSlice parentResourceName =
     filterChildrenLoop metaDataSlice parentResourceName []"


section \<open>The cluster: \<open>getResourceListContent\<close> and \<open>getResourceNames\<close>\<close>

text \<open>
  The outcome of the HTTP request that \<open>getResourceListContent\<close> sends to a URL:
  \<open>url.Parse\<close> rejects the URL, \<open>client.Do\<close> returns an error (and a nil response), or a
  response arrives, whose body is given as the document it decodes to. A response with
  an error status code is a response like any other: its body is read and returned.
\<close>

datatype response =
  UrlRejected
| RequestFailed
| Body json

text \<open>
  The package-level variables that the build reads, and the world outside: whether the
  service-account token and the CA certificate can be read, and what each URL answers
  (one state of the cluster: a URL answers the same each time it is asked).
  \<open>compositionMap\<close> maps a kind to its child kinds; its order is the order of
  \<open>range compositionMap\<close>.
\<close>

record env =
  serviceHost :: string
  servicePort :: string
  Namespace :: string
  KindPluralMap :: "(string \<times> string) list"
  kindVersionMap :: "(string \<times> string) list"
  compositionMap :: "(string \<times> string list) list"
  tokenReadable :: bool
  caCertReadable :: bool
  httpGet :: "string \<Rightarrow> response"

definition listUrl :: "env \<Rightarrow> string \<Rightarrow> string \<Rightarrow> string" where
  "listUrl e resourceApiVersion resourcePlural =
     (if \<not> Contains resourceApiVersion resourcePlural
      then ''https://'' @ serviceHost e @ '':'' @ servicePort e @ ''/'' @ resourceApiVersion @
           ''/namespaces/'' @ Namespace e @ ''/'' @ resourcePlural
      else ''https://'' @ serviceHost e @ '':'' @ servicePort e @ ''/'' @ resourceApiVersion)"

text \<open>
  \<open>getToken\<close> and \<open>getCACert\<close> panic when their file cannot be read, and a URL that does
  not parse panics. When \<open>client.Do\<close> fails, the error is logged and printed and the
  function goes on to \<open>defer resp.Body.Close()\<close> with \<open>resp\<close> nil: reading the field
  \<open>Body\<close> through the nil pointer panics. (\<open>http.NewRequest\<close> is given the method
  \<open>GET\<close> and a URL that has just been parsed; it is taken not to fail.)
\<close>

definition getResourceListContent :: "env \<Rightarrow> string \<Rightarrow> string \<Rightarrow> panic + json" where
  "getResourceListContent e resourceApiVersion resourcePlural =
     (if \<not> tokenReadable e then Inl TokenFileUnreadable
      else if \<not> caCertReadable e then Inl CACertFileUnreadable
      else (case httpGet e (listUrl e resourceApiVersion resourcePlural) of
              UrlRejected \<Rightarrow> Inl UrlParseFailed
            | RequestFailed \<Rightarrow> Inl NilPointerDereference
            | Body resp_body \<Rightarrow> Inr resp_body))"

definition listAndParse ::
  "env \<Rightarrow> string \<Rightarrow> string \<Rightarrow> panic + MetaDataAndOwnerReferences list"
where
  "listAndParse e resourceApiVersion resourcePlural =
     (case getResourceListContent e resourceApiVersion resourcePlural of
        Inl p \<Rightarrow> Inl p
      | Inr content \<Rightarrow> parseMetaData content)"

definition getResourceNames :: "env \<Rightarrow> string \<Rightarrow> panic + MetaDataAndOwnerReferences list" where
  "getResourceNames e resourceKind =
     listAndParse e (lookupString (kindVersionMap e) resourceKind)
       (lookupString (KindPluralMap e) resourceKind)"


section \<open>The tree builder: \<open>buildProvenance\<close>\<close>

text \<open>
  \<open>buildProvenance\<close> calls itself for every child instance it keeps, and nothing in the
  source bounds the nesting: on a schema with a cycle it may never return. The model
  therefore counts stack frames: the first argument is the number of nested activations
  of \<open>buildProvenance\<close> that are still allowed, and the result \<open>None\<close> says that the
  build needed more. \<open>Some (Inl p)\<close> is a build that ends in the panic \<open>p\<close>,
  \<open>Some (Inr tree)\<close> one that returns with \<open>*compositionTree = tree\<close>.

  \<open>buildChildKinds\<close> is the loop over \<open>childResourceKindList\<close>, \<open>buildChildren\<close> the loop
  over \<open>childrenList\<close>.
\<close>

fun buildProvenance ::
  "nat \<Rightarrow> env \<Rightarrow> string \<Rightarrow> string \<Rightarrow> int \<Rightarrow> CompositionTreeNode list \<Rightarrow>
     (panic + CompositionTreeNode list) option"
and buildChildKinds ::
  "nat \<Rightarrow> env \<Rightarrow> string \<Rightarrow> int \<Rightarrow> string list \<Rightarrow> CompositionTreeNode list \<Rightarrow>
     (panic + CompositionTreeNode list) option"
and buildChildren ::
  "nat \<Rightarrow> env \<Rightarrow> string \<Rightarrow> int \<Rightarrow> MetaDataAndOwnerReferences list \<Rightarrow>
     CompositionTreeNode list \<Rightarrow> (panic + CompositionTreeNode list) option"
where
  "buildProvenance 0 e parentResourceKind parentResourceName level compositionTree = None"
| "buildProvenance (Suc n) e parentResourceKind parentResourceName level compositionTree =
     (case map_of (compositionMap e) parentResourceKind of
        None \<Rightarrow> Some (Inr compositionTree)
      | Some childResourceKindList \<Rightarrow>
          buildChildKinds n e parentResourceName (level + 1) childResourceKindList
            compositionTree)"
| "buildChildKinds n e parentResourceName level [] compositionTree =
     Some (Inr compositionTree)"
| "buildChildKinds n e parentResourceName level (childResourceKind # rest) compositionTree =
     (case listAndParse e (lookupString (kindVersionMap e) childResourceKind)
             (lookupString (KindPluralMap e) childResourceKind) of
        Inl p \<Rightarrow> Some (Inl p)
      | Inr metaDataAndOwnerReferenceList \<Rightarrow>
          (let childrenList = filterChildren metaDataAndOwnerReferenceList parentResourceName;
               compTreeNode = \<lparr>Level = level, ChildKind = childResourceKind,
                               Children = childrenList\<rparr>
           in case buildChildren n e childResourceKind level childrenList
                     (compositionTree @ [compTreeNode]) of
                None \<Rightarrow> None
              | Some (Inl p) \<Rightarrow> Some (Inl p)
              | Some (Inr compositionTree') \<Rightarrow>
                  buildChildKinds n e parentResourceName level rest compositionTree'))"
| "buildChildren n e resourceKind level [] compositionTree = Some (Inr compositionTree)"
| "buildChildren n e resourceKind level (metaDataRef # rest) compositionTree =
     (case buildProvenance n e resourceKind (MetaDataName metaDataRef) level compositionTree of
        None \<Rightarrow> None
      | Some (Inl p) \<Rightarrow> Some (Inl p)
      | Some (Inr compositionTree') \<Rightarrow>
          buildChildren n e resourceKind level rest compositionTree')"


section \<open>The query engine: \<open>getComposition\<close> and \<open>GetProvenance\<close>\<close>

fun processedLoop :: "CompositionTreeNode list \<Rightarrow> CompositionTreeNode \<Rightarrow> bool \<Rightarrow> bool" where
  "processedLoop [] nodeToCheck result = result"
| "processedLoop (compositionTreeNode1 # rest) nodeToCheck result =
     processedLoop rest nodeToCheck
       (if Level compositionTreeNode1 = Level nodeToCheck \<and>
           ChildKind compositionTreeNode1 = ChildKind nodeToCheck
        then True else result)"

definition processed :: "CompositionTreeNode list \<Rightarrow> CompositionTreeNode \<Rightarrow> bool" where
  "processed processedList nodeToCheck = processedLoop processedList nodeToCheck False"

text \<open>The loop that fills \<open>trimmedTree\<close>: it keeps a node when both its level and its kind differ.\<close>

definition trimTree ::
  "CompositionTreeNode list \<Rightarrow> int \<Rightarrow> string \<Rightarrow> CompositionTreeNode list"
where
  "trimTree compositionTree level childKind =
     filter (\<lambda>compositionTreeNode1.
               Level compositionTreeNode1 \<noteq> level \<and> ChildKind compositionTreeNode1 \<noteq> childKind)
       compositionTree"

text \<open>
  \<open>getComposition\<close> appends to \<open>*processedList\<close> through the pointer it is given, so the
  list is threaded through: the function returns the node together with the list as it
  has left it.

  \<open>getCompositionNodes\<close> is the loop \<open>for _, compositionTreeNode := range *compositionTree\<close>
  and \<open>getCompositionMembers\<close> the loop over the members of one node. The range expression
  is evaluated once, so the outer loop runs over the tree that was passed in, which is
  \<open>earlier @ compositionTreeNode # rest\<close> at every iteration. The flag \<open>emptied\<close> records
  that the local variable \<open>compositionTree\<close> has been pointed to a fresh empty slice, which
  happens after each recursive call; from then on the trimmed tree is computed from the
  empty slice.
\<close>

function getComposition ::
  "string \<Rightarrow> string \<Rightarrow> string \<Rightarrow> int \<Rightarrow> CompositionTreeNode list \<Rightarrow> CompositionTreeNode list \<Rightarrow>
     Composition \<times> CompositionTreeNode list"
and getCompositionNodes ::
  "CompositionTreeNode list \<Rightarrow> CompositionTreeNode list \<Rightarrow> bool \<Rightarrow> CompositionTreeNode list \<Rightarrow>
     Composition list \<Rightarrow> bool \<times> CompositionTreeNode list \<times> Composition list"
and getCompositionMembers ::
  "CompositionTreeNode list \<Rightarrow> CompositionTreeNode \<Rightarrow> CompositionTreeNode list \<Rightarrow>
     MetaDataAndOwnerReferences list \<Rightarrow> bool \<Rightarrow> CompositionTreeNode list \<Rightarrow>
     Composition list \<Rightarrow> bool \<times> CompositionTreeNode list \<times> Composition list"
where
  "getComposition kind name status level compositionTree processedList =
     (case getCompositionNodes [] compositionTree False processedList [] of
        (emptied, processedList', children) \<Rightarrow>
          (Composition level kind name status children, processedList'))"
| "getCompositionNodes earlier [] emptied processedList children =
     (emptied, processedList, children)"
| "getCompositionNodes earlier (compositionTreeNode # rest) emptied processedList children =
     (if processed processedList compositionTreeNode
      then getCompositionNodes (earlier @ [compositionTreeNode]) rest emptied processedList children
      else (case getCompositionMembers earlier compositionTreeNode rest
                   (Children compositionTreeNode) emptied processedList children of
              (emptied', processedList', children') \<Rightarrow>
                getCompositionNodes (earlier @ [compositionTreeNode]) rest emptied'
                  processedList' children'))"
| "getCompositionMembers earlier compositionTreeNode rest [] emptied processedList children =
     (emptied, processedList, children)"
| "getCompositionMembers earlier compositionTreeNode rest (metaDataNode # members) emptied
       processedList children =
     (case getComposition (ChildKind compositionTreeNode) (MetaDataName metaDataNode)
             (Status metaDataNode) (Level compositionTreeNode)
             (trimTree (if emptied then [] else earlier @ compositionTreeNode # rest)
                (Level compositionTreeNode) (ChildKind compositionTreeNode))
             (processedList @ [compositionTreeNode]) of
        (child, processedList') \<Rightarrow>
          getCompositionMembers earlier compositionTreeNode rest members True processedList'
            (children @ [child]))"
  by pat_completeness auto
termination
  apply (relation "measures
    [\<lambda>x. case x of
        Inl (kind, name, status, level, compositionTree, processedList) \<Rightarrow>
          length compositionTree
      | Inr (Inl (earlier, rest, emptied, processedList, children)) \<Rightarrow>
          length earlier + length rest
      | Inr (Inr (earlier, node, rest, members, emptied, processedList, children)) \<Rightarrow>
          Suc (length earlier + length rest),
     \<lambda>x. case x of Inl a \<Rightarrow> 2 | Inr (Inl b) \<Rightarrow> 1 | Inr (Inr c) \<Rightarrow> 0,
     \<lambda>x. case x of
        Inl a \<Rightarrow> 0
      | Inr (Inl (earlier, rest, emptied, processedList, children)) \<Rightarrow> length rest
      | Inr (Inr (earlier, node, rest, members, emptied, processedList, children)) \<Rightarrow>
          length members]")
        apply (simp_all add: trimTree_def add_le_mono less_Suc_eq_le)
  done


text \<open>
  The loop \<open>for key, value := range KindPluralMap\<close> with its \<open>break\<close>: the lower-cased key
  of the first entry visited whose plural equals the wanted plural, both lower-cased;
  the empty string when there is none. The wanted plural arrives lower-cased already and
  is lower-cased once more in the comparison.
\<close>

fun resolveKind :: "(string \<times> string) list \<Rightarrow> string \<Rightarrow> string" where
  "resolveKind [] resourceKindPlural = []"
| "resolveKind ((key, value) # rest) resourceKindPlural =
     (if ToLower value = ToLower resourceKindPlural then ToLower key
      else resolveKind rest resourceKindPlural)"

text \<open>
  The loop over \<open>cp.clusterProvenance\<close> in \<open>GetProvenance\<close>. Every matching record gets a
  fresh \<open>processedList\<close>, and the list that \<open>getComposition\<close> leaves behind is dropped.
  The table is ranged over once per record; the model visits it in the same order each
  time, which makes no difference when no two keys share a plural up to letter case.
\<close>

fun GetProvenanceLoop ::
  "(string \<times> string) list \<Rightarrow> string \<Rightarrow> string \<Rightarrow> Provenance list \<Rightarrow> Composition list \<Rightarrow>
     Composition list"
where
  "GetProvenanceLoop kindPluralMap resourceKindPlural0 resourceName0 [] compositions =
     compositions"
| "GetProvenanceLoop kindPluralMap resourceKindPlural0 resourceName0 (provenanceItem # rest)
       compositions =
     (let kind = ToLower (Kind provenanceItem);
          name = ToLower (Name provenanceItem);
          status = ProvStatus provenanceItem;
          compositionTree = CompositionTree provenanceItem;
          resourceKindPlural = ToLower resourceKindPlural0;
          resourceKind = resolveKind kindPluralMap resourceKindPlural;
          resourceName = ToLower resourceName0
      in GetProvenanceLoop kindPluralMap resourceKindPlural0 resourceName0 rest
           (if resourceName = ''*''
            then (if resourceKind = kind
                  then compositions @ [fst (getComposition kind name status 1 compositionTree [])]
                  else compositions)
            else (if resourceKind = kind \<and> resourceName = name
                  then compositions @ [fst (getComposition kind name status 1 compositionTree [])]
                  else compositions)))"

definition GetProvenanceCompositions ::
  "(string \<times> string) list \<Rightarrow> ClusterProvenance \<Rightarrow> string \<Rightarrow> string \<Rightarrow> Composition list"
where
  "GetProvenanceCompositions kindPluralMap cp resourceKind resourceName =
     GetProvenanceLoop kindPluralMap (lookupString kindPluralMap resourceKind) resourceName cp []"

subsection \<open>Serialisation\<close>

text \<open>
  Modelled from the spec: the declaration of the struct \<open>Composition\<close> is missing from the
  sources, and with it the names under which \<open>json.Marshal\<close> writes its fields. The spec
  gives the shape of a node as
  \<open>{"Level": int, "Kind": string, "Name": string, "Status": string, "Children": [...]}\<close>.
  \<open>json.Marshal\<close> writes the fields in this order without white space, a non-nil empty
  slice as \<open>[]\<close>, an integer in decimal, and a string between double quotes with the
  escapes of \<open>encoding/json\<close>: a backslash before a double quote and a backslash,
  \<open>\n\<close>, \<open>\r\<close> and \<open>\t\<close> for these three control characters, and \<open>\u00XX\<close> for the
  other control characters and for \<open><\<close>, \<open>>\<close> and \<open>&\<close>. Bytes from \<open>0x80\<close> on are copied
  (which is what Go does with valid UTF-8, but for U+2028 and U+2029).
\<close>

definition digitChar :: "nat \<Rightarrow> char" where
  "digitChar n = char_of (48 + n)"

definition hexChar :: "nat \<Rightarrow> char" where
  "hexChar n = (if n < 10 then char_of (48 + n) else char_of (87 + n))"

fun showNat :: "nat \<Rightarrow> string" where
  "showNat n = (if n < 10 then [digitChar n] else showNat (n div 10) @ [digitChar (n mod 10)])"

declare showNat.simps [simp del]

definition showInt :: "int \<Rightarrow> string" where
  "showInt i = (if i < 0 then CHR ''-'' # showNat (nat (- i)) else showNat (nat i))"

definition encodeChar :: "char \<Rightarrow> string" where
  "encodeChar c =
     (let n = (of_char c :: nat) in
      if n = 34 then [CHR 0x5C, CHR 0x22]
      else if n = 92 then [CHR 0x5C, CHR 0x5C]
      else if n = 10 then [CHR 0x5C, CHR ''n'']
      else if n = 13 then [CHR 0x5C, CHR ''r'']
      else if n = 9 then [CHR 0x5C, CHR ''t'']
      else if n < 32 \<or> n = 60 \<or> n = 62 \<or> n = 38
      then [CHR 0x5C, CHR ''u'', CHR ''0'', CHR ''0'', hexChar (n div 16), hexChar (n mod 16)]
      else [c])"

definition marshalString :: "string \<Rightarrow> string" where
  "marshalString s = CHR 0x22 # concat (map encodeChar s) @ [CHR 0x22]"

fun joinComma :: "string list \<Rightarrow> string" where
  "joinComma [] = []"
| "joinComma [x] = x"
| "joinComma (x # y # rest) = x @ CHR '','' # joinComma (y # rest)"

fun marshalComposition :: "Composition \<Rightarrow> string" where
  \<open>marshalComposition (Composition level kind name status children) =
     ''{"Level":'' @ showInt level @
     '',"Kind":'' @ marshalString kind @
     '',"Name":'' @ marshalString name @
     '',"Status":'' @ marshalString status @
     '',"Children":['' @ joinComma (map marshalComposition children) @ '']}''\<close>

definition marshalCompositions :: "Composition list \<Rightarrow> string" where
  "marshalCompositions compositions =
     CHR ''['' # joinComma (map marshalComposition compositions) @ [CHR '']'']"

text \<open>
  \<open>GetProvenance\<close> returns the serialised list (\<open>json.Marshal\<close> does not fail on this
  type). It holds \<open>cp.mux\<close> from its first statement to its return.
\<close>

definition GetProvenance ::
  "(string \<times> string) list \<Rightarrow> ClusterProvenance \<Rightarrow> string \<Rightarrow> string \<Rightarrow> string"
where
  "GetProvenance kindPluralMap cp resourceKind resourceName =
     marshalCompositions (GetProvenanceCompositions kindPluralMap cp resourceKind resourceName)"

subsection \<open>The tables that \<open>init\<close> sets\<close>

text \<open>The entries of the basic kinds, as \<open>init\<close> writes them after the first schema load.\<close>

definition initKindPluralMap :: "(string \<times> string) list" where
  "initKindPluralMap =
     [(''Deployment'', ''deployments''), (''ReplicaSet'', ''replicasets''), (''Pod'', ''pods''),
      (''Service'', ''services''), (''Secret'', ''secrets''),
      (''PersistentVolumeClaim'', ''persistentvolumeclaims''),
      (''PersistentVolume'', ''persistentvolumes'')]"

definition initKindVersionMap :: "(string \<times> string) list" where
  "initKindVersionMap =
     [(''Deployment'', ''apis/apps/v1''), (''ReplicaSet'', ''apis/extensions/v1beta1''),
      (''Pod'', ''api/v1''), (''Service'', ''api/v1''), (''Secret'', ''api/v1''),
      (''PersistentVolumeClaim'', ''api/v1''),
      (''PersistentVolume'', ''api/v1/persistentvolumes'')]"

definition initCompositionMap :: "(string \<times> string list) list" where
  "initCompositionMap =
     [(''Deployment'', [''ReplicaSet'']), (''ReplicaSet'', [''Pod'']), (''Pod'', []),
      (''Service'', []), (''Secret'', []), (''PersistentVolumeClaim'', []),
      (''PersistentVolume'', [])]"



section \<open>The provenance store\<close>

subsection \<open>\<open>storeProvenance\<close>\<close>

text \<open>
  The loop \<open>for i, prov := range cp.clusterProvenance\<close> of \<open>storeProvenance\<close>: it writes
  the new tree and status into every element whose kind and name equal the new record's, in
  place, and raises the flag \<open>present\<close>. It has no \<open>break\<close>.
\<close>

fun storeProvenanceLoop ::
  "Provenance \<Rightarrow> MetaDataAndOwnerReferences \<Rightarrow> Provenance list \<Rightarrow> bool \<Rightarrow> Provenance list \<times> bool"
where
  "storeProvenanceLoop provenance topLevelObject [] present = ([], present)"
| "storeProvenanceLoop provenance topLevelObject (prov # rest) present =
     (if Kind prov = Kind provenance \<and> Name prov = Name provenance
      then (case storeProvenanceLoop provenance topLevelObject rest True of
              (rest', present') \<Rightarrow>
                (prov\<lparr>CompositionTree := CompositionTree provenance,
                      ProvStatus := Status topLevelObject\<rparr> # rest', present'))
      else (case storeProvenanceLoop provenance topLevelObject rest present of
              (rest', present') \<Rightarrow> (prov # rest', present')))"

definition storeProvenance ::
  "ClusterProvenance \<Rightarrow> MetaDataAndOwnerReferences \<Rightarrow> string \<Rightarrow> string \<Rightarrow>
     CompositionTreeNode list \<Rightarrow> ClusterProvenance"
where
  "storeProvenance cp topLevelObject resourceKind resourceName compositionTree =
     (let provenance = \<lparr>Kind = resourceKind, Name = resourceName,
                         ProvStatus = Status topLevelObject,
                         CompositionTree = compositionTree\<rparr>
      in case storeProvenanceLoop provenance topLevelObject cp False of
           (cp', present) \<Rightarrow> if \<not> present then cp' @ [provenance] else cp')"

subsection \<open>\<open>purgeCompositionOfDeletedItems\<close>\<close>

text \<open>
  The inner loop appends \<open>prov\<close> once for every element of the seen list that carries
  \<open>prov\<close>'s name; the outer loop runs over the stored records in order.
\<close>

fun purgeInner ::
  "Provenance \<Rightarrow> MetaDataAndOwnerReferences list \<Rightarrow> Provenance list \<Rightarrow> Provenance list"
where
  "purgeInner prov [] presentList = presentList"
| "purgeInner prov (topLevelObject # rest) presentList =
     (if MetaDataName topLevelObject = Name prov
      then purgeInner prov rest (presentList @ [prov])
      else purgeInner prov rest presentList)"

fun purgeOuter ::
  "Provenance list \<Rightarrow> MetaDataAndOwnerReferences list \<Rightarrow> Provenance list \<Rightarrow> Provenance list"
where
  "purgeOuter [] topLevelMetaDataOwnerRefList presentList = presentList"
| "purgeOuter (prov # rest) topLevelMetaDataOwnerRefList presentList =
     purgeOuter rest topLevelMetaDataOwnerRefList
       (purgeInner prov topLevelMetaDataOwnerRefList presentList)"

definition purgeCompositionOfDeletedItems ::
  "ClusterProvenance \<Rightarrow> MetaDataAndOwnerReferences list \<Rightarrow> ClusterProvenance"
where
  "purgeCompositionOfDeletedItems cp topLevelMetaDataOwnerRefList =
     purgeOuter cp topLevelMetaDataOwnerRefList []"


section \<open>The refresh loop: one cycle of \<open>BuildCompositionTree\<close>\<close>

text \<open>
  One pass through the body of the endless loop of \<open>BuildCompositionTree\<close>, after the
  schema has been reloaded and before the sleep. The function has no \<open>recover\<close>: a panic
  inside the cycle ends the loop (and the process). The first argument bounds the nesting
  of every build of the cycle, as in \<open>buildProvenance\<close>.
\<close>

definition getResourceKinds :: "env \<Rightarrow> string list" where
  "getResourceKinds e = map fst (compositionMap e)"

fun topLevelLoop ::
  "nat \<Rightarrow> env \<Rightarrow> string \<Rightarrow> MetaDataAndOwnerReferences list \<Rightarrow> ClusterProvenance \<Rightarrow>
     (panic + ClusterProvenance) option"
where
  "topLevelLoop n e resourceKind [] cp = Some (Inr cp)"
| "topLevelLoop n e resourceKind (topLevelObject # rest) cp =
     (case buildProvenance n e resourceKind (MetaDataName topLevelObject) 1 [] of
        None \<Rightarrow> None
      | Some (Inl p) \<Rightarrow> Some (Inl p)
      | Some (Inr compositionTree) \<Rightarrow>
          topLevelLoop n e resourceKind rest
            (storeProvenance cp topLevelObject resourceKind (MetaDataName topLevelObject)
               compositionTree))"

fun collectSeen ::
  "MetaDataAndOwnerReferences list \<Rightarrow> MetaDataAndOwnerReferences list \<Rightarrow>
     MetaDataAndOwnerReferences list"
where
  "collectSeen [] resourceInCluster = resourceInCluster"
| "collectSeen (resource # rest) resourceInCluster =
     (if MetaDataName resource \<in> set (map MetaDataName resourceInCluster)
      then collectSeen rest resourceInCluster
      else collectSeen rest (resourceInCluster @ [resource]))"

fun resourceKindsLoop ::
  "nat \<Rightarrow> env \<Rightarrow> string list \<Rightarrow> ClusterProvenance \<Rightarrow> MetaDataAndOwnerReferences list \<Rightarrow>
     (panic + ClusterProvenance \<times> MetaDataAndOwnerReferences list) option"
where
  "resourceKindsLoop n e [] cp resourceInCluster = Some (Inr (cp, resourceInCluster))"
| "resourceKindsLoop n e (resourceKind # rest) cp resourceInCluster =
     (case getResourceNames e resourceKind of
        Inl p \<Rightarrow> Some (Inl p)
      | Inr topLevelMetaDataOwnerRefList \<Rightarrow>
          (case topLevelLoop n e resourceKind topLevelMetaDataOwnerRefList cp of
             None \<Rightarrow> None
           | Some (Inl p) \<Rightarrow> Some (Inl p)
           | Some (Inr cp') \<Rightarrow>
               resourceKindsLoop n e rest cp'
                 (collectSeen topLevelMetaDataOwnerRefList resourceInCluster)))"

definition refreshCycle ::
  "nat \<Rightarrow> env \<Rightarrow> ClusterProvenance \<Rightarrow> (panic + ClusterProvenance) option"
where
  "refreshCycle n e cp =
     (case resourceKindsLoop n e (getResourceKinds e) cp [] of
        None \<Rightarrow> None
      | Some (Inl p) \<Rightarrow> Some (Inl p)
      | Some (Inr (cp', resourceInCluster)) \<Rightarrow>
          Some (Inr (purgeCompositionOfDeletedItems cp' resourceInCluster)))"

section \<open>The mutex of the store\<close>

text \<open>
  The methods of \<open>ClusterProvenance\<close> share the slice \<open>clusterProvenance\<close> and the mutex
  \<open>mux\<close>. For the locking discipline a method is the sequence, in program order, of its
  calls of \<open>cp.mux.Lock()\<close> and \<open>cp.mux.Unlock()\<close> and of its accesses to
  \<open>cp.clusterProvenance\<close> (a deferred \<open>Unlock\<close> runs when the method returns; the accesses
  of a loop are listed once).

  \<open>storeProvenance\<close>, \<open>GetProvenance\<close>, \<open>PrintProvenance\<close> and \<open>checkIfProvenanceNeeded\<close>
  start with \<open>cp.mux.Lock()\<close> and \<open>defer cp.mux.Unlock()\<close>.
  \<open>purgeCompositionOfDeletedItems\<close> ranges over \<open>cp.clusterProvenance\<close> and assigns to it,
  and calls neither \<open>Lock\<close> nor \<open>Unlock\<close>.
\<close>

datatype access = Lock | Unlock | ReadCollection | WriteCollection

definition storeProvenanceAccesses :: "access list" where
  "storeProvenanceAccesses = [Lock, ReadCollection, WriteCollection, Unlock]"

definition GetProvenanceAccesses :: "access list" where
  "GetProvenanceAccesses = [Lock, ReadCollection, Unlock]"

definition PrintProvenanceAccesses :: "access list" where
  "PrintProvenanceAccesses = [Lock, ReadCollection, Unlock]"

definition checkIfProvenanceNeededAccesses :: "access list" where
  "checkIfProvenanceNeededAccesses = [Lock, ReadCollection, Unlock]"

definition purgeCompositionOfDeletedItemsAccesses :: "access list" where
  "purgeCompositionOfDeletedItemsAccesses = [ReadCollection, WriteCollection]"

text \<open>
  Goroutines that run such methods, interleaved: the state is the goroutine that holds the
  mutex, if any, and what each goroutine still has to do. \<open>Lock\<close> blocks while the mutex
  is held; every other step of a goroutine can be taken at any time. \<open>stepGoroutine i\<close>
  is \<open>None\<close> when goroutine \<open>i\<close> cannot take a step.
\<close>

type_synonym goroutines = "nat option \<times> access list list"

fun stepGoroutine :: "nat \<Rightarrow> goroutines \<Rightarrow> goroutines option" where
  "stepGoroutine i (holder, todo) =
     (if length todo \<le> i then None
      else case todo ! i of
             [] \<Rightarrow> None
           | Lock # rest \<Rightarrow>
               (if holder = None then Some (Some i, todo[i := rest]) else None)
           | Unlock # rest \<Rightarrow>
               (if holder = Some i then Some (None, todo[i := rest]) else None)
           | ReadCollection # rest \<Rightarrow> Some (holder, todo[i := rest])
           | WriteCollection # rest \<Rightarrow> Some (holder, todo[i := rest]))"

text \<open>A schedule names the goroutine that takes the next step.\<close>

fun runSchedule :: "nat list \<Rightarrow> goroutines \<Rightarrow> goroutines option" where
  "runSchedule [] s = Some s"
| "runSchedule (i # schedule) s =
     (case stepGoroutine i s of None \<Rightarrow> None | Some s' \<Rightarrow> runSchedule schedule s')"

section \<open>Notions used in the statements\<close>

subsection \<open>Store\<close>

definition sameIdentity :: "string \<Rightarrow> string \<Rightarrow> Provenance \<Rightarrow> bool" where
  "sameIdentity kind name prov = (Kind prov = kind \<and> Name prov = name)"

definition replaceTreeAndStatus ::
  "string \<Rightarrow> string \<Rightarrow> string \<Rightarrow> CompositionTreeNode list \<Rightarrow> Provenance \<Rightarrow> Provenance"
where
  "replaceTreeAndStatus kind name status tree prov =
     (if sameIdentity kind name prov
      then prov\<lparr>CompositionTree := tree, ProvStatus := status\<rparr> else prov)"

subsection \<open>Decoded documents and the status of an item\<close>

text \<open>
  A decoded object is a Go map, which holds one entry per key: \<open>goMaps\<close> says that this is
  so for every object inside a document.
\<close>

fun goMaps :: "json \<Rightarrow> bool" where
  "goMaps (JObject entries) =
     (distinct (map fst entries) \<and> list_all (\<lambda>entry. goMaps (snd entry)) entries)"
| "goMaps (JArray elements) = list_all goMaps elements"
| "goMaps other = True"

definition numberField :: "(string \<times> json) list \<Rightarrow> string \<Rightarrow> real option" where
  "numberField m k = (case map_of m k of Some (JNumber x) \<Rightarrow> Some x | _ \<Rightarrow> None)"

definition stringField :: "(string \<times> json) list \<Rightarrow> string \<Rightarrow> string option" where
  "stringField m k = (case map_of m k of Some (JString s) \<Rightarrow> Some s | _ \<Rightarrow> None)"

text \<open>
  The status derivation in the words of the specification: \<open>replicas\<close>, \<open>readyReplicas\<close> and
  \<open>availableReplicas\<close> are present, \<open>replicas\<close> is positive and the three are equal.
\<close>

definition specReady :: "(string \<times> json) list \<Rightarrow> bool" where
  "specReady statusMap =
     (case (numberField statusMap ''replicas'', numberField statusMap ''readyReplicas'',
            numberField statusMap ''availableReplicas'') of
        (Some replicas, Some readyReplicas, Some availableReplicas) \<Rightarrow>
          0 < replicas \<and> replicas = readyReplicas \<and> replicas = availableReplicas
      | _ \<Rightarrow> False)"

text \<open>
  \<open>"Ready"\<close> under that condition, otherwise the raw phase when there is one, otherwise
  what the status was (empty, for a fresh snapshot).
\<close>

definition specStatus :: "(string \<times> json) list \<Rightarrow> string \<Rightarrow> string" where
  "specStatus statusMap before =
     (if specReady statusMap then ''Ready''
      else case stringField statusMap ''phase'' of Some phase \<Rightarrow> phase | None \<Rightarrow> before)"

definition specItemStatus :: "(string \<times> json) list \<Rightarrow> string" where
  "specItemStatus item =
     (case map_of item ''status'' of
        Some (JObject statusMap) \<Rightarrow> specStatus statusMap []
      | _ \<Rightarrow> [])"

definition listing :: "json list \<Rightarrow> json" where
  "listing items = JObject [(''items'', JArray items)]"

text \<open>
  The name of an item: \<open>metadata.name\<close> when there is one, otherwise what the name was
  (empty, for a fresh snapshot).
\<close>

definition specName :: "(string \<times> json) list \<Rightarrow> string \<Rightarrow> string" where
  "specName metadataMap before =
     (case stringField metadataMap ''name'' of Some name \<Rightarrow> name | None \<Rightarrow> before)"

definition specItemName :: "(string \<times> json) list \<Rightarrow> string" where
  "specItemName item =
     (case map_of item ''metadata'' of
        Some (JObject metadataMap) \<Rightarrow> specName metadataMap []
      | _ \<Rightarrow> [])"

text \<open>
  \<open>snapshotsOfItem item snapshots\<close>: the snapshots are those of this item. Each of them
  carries the item's name and the status derived from the item's status fields, and there
  is at least one of them exactly when the item has a \<open>metadata\<close> entry.
\<close>

definition snapshotsOfItem :: "json \<Rightarrow> MetaDataAndOwnerReferences list \<Rightarrow> bool" where
  "snapshotsOfItem x snapshots =
     (case x of
        JObject item \<Rightarrow>
          list_all (\<lambda>snapshot. Status snapshot = specItemStatus item \<and>
                               MetaDataName snapshot = specItemName item) snapshots \<and>
          (snapshots \<noteq> [] \<longleftrightarrow> map_of item ''metadata'' \<noteq> None)
      | _ \<Rightarrow> False)"

text \<open>
  The shape of an item as the specification gives it for the Resource Lister: an object
  whose \<open>metadata\<close>, when present, is an object with a string \<open>name\<close> and an array
  \<open>ownerReferences\<close> of objects with string \<open>name\<close>, \<open>kind\<close> and \<open>apiVersion\<close>, and whose
  \<open>status\<close>, when present, is an object with a string \<open>phase\<close> and numeric \<open>replicas\<close>,
  \<open>readyReplicas\<close> and \<open>availableReplicas\<close>; every one of these fields is optional.
  \<open>entriesAt k entries\<close> are the values that stand under the key \<open>k\<close>.
\<close>

definition entriesAt :: "string \<Rightarrow> (string \<times> json) list \<Rightarrow> json list" where
  "entriesAt k entries = map snd (filter (\<lambda>entry. fst entry = k) entries)"

fun isString :: "json \<Rightarrow> bool" where
  "isString (JString s) = True"
| "isString other = False"

fun isNumber :: "json \<Rightarrow> bool" where
  "isNumber (JNumber x) = True"
| "isNumber other = False"

fun wellTypedOwnerReference :: "json \<Rightarrow> bool" where
  "wellTypedOwnerReference (JObject entries) =
     (list_all isString (entriesAt ''name'' entries) \<and>
      list_all isString (entriesAt ''kind'' entries) \<and>
      list_all isString (entriesAt ''apiVersion'' entries))"
| "wellTypedOwnerReference other = False"

fun wellTypedOwnerReferences :: "json \<Rightarrow> bool" where
  "wellTypedOwnerReferences (JArray references) = list_all wellTypedOwnerReference references"
| "wellTypedOwnerReferences other = False"

fun wellTypedMetadata :: "json \<Rightarrow> bool" where
  "wellTypedMetadata (JObject entries) =
     (list_all isString (entriesAt ''name'' entries) \<and>
      list_all wellTypedOwnerReferences (entriesAt ''ownerReferences'' entries))"
| "wellTypedMetadata other = False"

fun wellTypedStatus :: "json \<Rightarrow> bool" where
  "wellTypedStatus (JObject entries) =
     (list_all isString (entriesAt ''phase'' entries) \<and>
      list_all isNumber (entriesAt ''replicas'' entries) \<and>
      list_all isNumber (entriesAt ''readyReplicas'' entries) \<and>
      list_all isNumber (entriesAt ''availableReplicas'' entries))"
| "wellTypedStatus other = False"

fun wellTypedItem :: "json \<Rightarrow> bool" where
  "wellTypedItem (JObject entries) =
     (list_all wellTypedMetadata (entriesAt ''metadata'' entries) \<and>
      list_all wellTypedStatus (entriesAt ''status'' entries))"
| "wellTypedItem other = False"

subsection \<open>Queries\<close>

text \<open>
  What the loop of \<open>GetProvenance\<close> tests for a record, and the node it builds for one.
\<close>

definition queryMatches :: "(string \<times> string) list \<Rightarrow> string \<Rightarrow> string \<Rightarrow> Provenance \<Rightarrow> bool" where
  "queryMatches kindPluralMap plural resourceName prov =
     (resolveKind kindPluralMap (ToLower plural) = ToLower (Kind prov) \<and>
      (ToLower resourceName = ''*'' \<or> ToLower resourceName = ToLower (Name prov)))"

definition rootNode :: "Provenance \<Rightarrow> Composition" where
  "rootNode prov =
     fst (getComposition (ToLower (Kind prov)) (ToLower (Name prov)) (ProvStatus prov) 1
            (CompositionTree prov) [])"

subsection \<open>Schemas\<close>

text \<open>
  The schema as a relation: \<open>(child, kind)\<close> when \<open>kind\<close> declares \<open>child\<close> among its
  children. A schema has no cycle when this relation is acyclic.
\<close>

definition childKinds :: "(string \<times> string list) list \<Rightarrow> (string \<times> string) set" where
  "childKinds schema =
     {(child, kind). \<exists>children. map_of schema kind = Some children \<and> child \<in> set children}"

text \<open>
  \<open>childChain schema kind n\<close>: there is a child-chain of \<open>n\<close> steps that starts at \<open>kind\<close>,
  each step leading from a kind to one of its declared children.
\<close>

inductive childChain :: "(string \<times> string list) list \<Rightarrow> string \<Rightarrow> nat \<Rightarrow> bool"
  for schema :: "(string \<times> string list) list"
where
  chainEnd: "childChain schema kind 0"
| chainStep: "map_of schema kind = Some children \<Longrightarrow> child \<in> set children \<Longrightarrow>
     childChain schema child n \<Longrightarrow> childChain schema kind (Suc n)"

subsection \<open>Locking discipline\<close>

text \<open>
  \<open>lockHeldAtAccesses held accesses\<close>: running the sequence alone, with the mutex held
  or not at its start, every access to the collection happens while the mutex is held.
\<close>

fun lockHeldAtAccesses :: "bool \<Rightarrow> access list \<Rightarrow> bool" where
  "lockHeldAtAccesses held [] = True"
| "lockHeldAtAccesses held (Lock # rest) = lockHeldAtAccesses True rest"
| "lockHeldAtAccesses held (Unlock # rest) = lockHeldAtAccesses False rest"
| "lockHeldAtAccesses held (ReadCollection # rest) = (held \<and> lockHeldAtAccesses held rest)"
| "lockHeldAtAccesses held (WriteCollection # rest) = (held \<and> lockHeldAtAccesses held rest)"

fun accessesCollection :: "access list \<Rightarrow> bool" where
  "accessesCollection (ReadCollection # rest) = True"
| "accessesCollection (WriteCollection # rest) = True"
| "accessesCollection other = False"

text \<open>
  A state breaks mutual exclusion when some goroutine holds the mutex and the next step of
  another goroutine is an access to the collection.
\<close>

definition breaksExclusion :: "goroutines \<Rightarrow> bool" where
  "breaksExclusion s =
     (case s of (holder, todo) \<Rightarrow>
        (case holder of
           None \<Rightarrow> False
         | Some i \<Rightarrow> list_ex (\<lambda>j. j \<noteq> i \<and> accessesCollection (todo ! j)) [0..<length todo]))"

text \<open>
  The shape of a method that keeps the discipline: \<open>Lock\<close>, then accesses, then \<open>Unlock\<close>.
  \<open>insideSection\<close> is what is left of it once it has taken the mutex.
\<close>

fun insideSection :: "access list \<Rightarrow> bool" where
  "insideSection [Unlock] = True"
| "insideSection (ReadCollection # rest) = insideSection rest"
| "insideSection (WriteCollection # rest) = insideSection rest"
| "insideSection other = False"

fun disciplined :: "access list \<Rightarrow> bool" where
  "disciplined (Lock # rest) = insideSection rest"
| "disciplined other = False"

definition exclusive :: "goroutines \<Rightarrow> bool" where
  "exclusive s =
     (case s of (holder, todo) \<Rightarrow>
        list_all (\<lambda>j. if holder = Some j then insideSection (todo ! j)
                      else disciplined (todo ! j) \<or> todo ! j = [])
          [0..<length todo])"

section \<open>Example inputs\<close>

subsection \<open>Stores\<close>

definition rec1 :: Provenance where
  "rec1 = \<lparr>Kind = ''Deployment'', Name = ''web'', ProvStatus = ''Pending'', CompositionTree = []\<rparr>"

definition rec2 :: Provenance where
  "rec2 = \<lparr>Kind = ''Pod'', Name = ''web'', ProvStatus = ''Running'', CompositionTree = []\<rparr>"

definition obj1 :: MetaDataAndOwnerReferences where
  "obj1 = emptyMetaDataRef\<lparr>MetaDataName := ''web'', Status := ''Ready''\<rparr>"

definition tree1 :: "CompositionTreeNode list" where
  "tree1 = [\<lparr>Level = 2, ChildKind = ''ReplicaSet'', Children = []\<rparr>]"

definition rec3 :: Provenance where
  "rec3 = \<lparr>Kind = ''Pod'', Name = ''db'', ProvStatus = ''Running'', CompositionTree = []\<rparr>"

subsection \<open>Listing items\<close>

definition metadataWeb :: json where
  "metadataWeb = JObject [(''name'', JString ''web'')]"

definition snapshotWeb :: "string \<Rightarrow> MetaDataAndOwnerReferences" where
  "snapshotWeb status = emptyMetaDataRef\<lparr>MetaDataName := ''web'', Status := status\<rparr>"

text \<open>\<open>replicas = 3\<close>, \<open>readyReplicas = 3\<close>, \<open>availableReplicas = 3\<close>, with a phase.\<close>

definition itemAllReady :: "(string \<times> json) list" where
  "itemAllReady =
     [(''metadata'', metadataWeb),
      (''status'', JObject [(''phase'', JString ''Running''), (''replicas'', JNumber 3),
                            (''readyReplicas'', JNumber 3), (''availableReplicas'', JNumber 3)])]"

text \<open>\<open>replicas = 3\<close>, \<open>readyReplicas = 2\<close>, with a phase and without one.\<close>

definition itemTwoOfThree :: "(string \<times> json) list" where
  "itemTwoOfThree =
     [(''status'', JObject [(''replicas'', JNumber 3), (''phase'', JString ''Progressing''),
                            (''readyReplicas'', JNumber 2)]),
      (''metadata'', metadataWeb)]"

definition itemTwoOfThreeNoPhase :: "(string \<times> json) list" where
  "itemTwoOfThreeNoPhase =
     [(''metadata'', metadataWeb),
      (''status'', JObject [(''replicas'', JNumber 3), (''readyReplicas'', JNumber 2)])]"

definition statusRunning :: json where
  "statusRunning = JObject [(''phase'', JString ''Running'')]"

text \<open>
  A list response as the API server sends it, with four items: the three above, named
  \<open>web\<close>, and a pending one named \<open>db\<close> that has a further key.
\<close>

definition itemPending :: "(string \<times> json) list" where
  "itemPending =
     [(''metadata'', JObject [(''name'', JString ''db'')]),
      (''status'', JObject [(''phase'', JString ''Pending'')]),
      (''spec'', JObject [])]"

definition snapshotDb :: "string \<Rightarrow> MetaDataAndOwnerReferences" where
  "snapshotDb status = emptyMetaDataRef\<lparr>MetaDataName := ''db'', Status := status\<rparr>"

definition listResponse :: "(string \<times> json) list" where
  "listResponse =
     [(''kind'', JString ''DeploymentList''), (''apiVersion'', JString ''apps/v1''),
      (''metadata'', JObject [(''resourceVersion'', JString ''42'')]),
      (''items'', JArray [JObject itemAllReady, JObject itemPending, JObject itemTwoOfThree,
                          JObject itemTwoOfThreeNoPhase])]"

subsection \<open>A stored deployment\<close>

definition recMyApp :: Provenance where
  "recMyApp = \<lparr>Kind = ''Deployment'', Name = ''myapp'', ProvStatus = ''Ready'',
                CompositionTree = []\<rparr>"

subsection \<open>The schema \<open>A \<rightarrow> [B]\<close>, \<open>B \<rightarrow> []\<close> with one instance of each\<close>

text \<open>The listing of kind \<open>A\<close>: one instance \<open>a1\<close> without an owner.\<close>

definition listingA :: json where
  "listingA = listing [JObject [(''metadata'', JObject [(''name'', JString ''a1'')])]]"

text \<open>The listing of kind \<open>B\<close>: one instance \<open>b1\<close>, owned by \<open>a1\<close>.\<close>

definition listingB :: json where
  "listingB =
     listing [JObject [(''metadata'',
       JObject [(''name'', JString ''b1''),
                (''ownerReferences'',
                 JArray [JObject [(''apiVersion'', JString ''v1''), (''kind'', JString ''A''),
                                  (''name'', JString ''a1'')]])])]]"

definition clusterAB :: "string \<Rightarrow> response" where
  "clusterAB url =
     (if url = ''https://10.0.0.1:443/api/v1/namespaces/default/as'' then Body listingA
      else if url = ''https://10.0.0.1:443/api/v1/namespaces/default/bs'' then Body listingB
      else Body JNull)"

definition envAB :: env where
  "envAB = \<lparr>serviceHost = ''10.0.0.1'', servicePort = ''443'', Namespace = ''default'',
             KindPluralMap = [(''A'', ''as''), (''B'', ''bs'')],
             kindVersionMap = [(''A'', ''api/v1''), (''B'', ''api/v1'')],
             compositionMap = [(''A'', [''B'']), (''B'', [])],
             tokenReadable = True, caCertReadable = True,
             httpGet = clusterAB\<rparr>"

definition objA1 :: MetaDataAndOwnerReferences where
  "objA1 = emptyMetaDataRef\<lparr>MetaDataName := ''a1''\<rparr>"

definition objB1 :: MetaDataAndOwnerReferences where
  "objB1 = \<lparr>MetaDataName = ''b1'', OwnerReferenceName = ''a1'', OwnerReferenceKind = ''A'',
             OwnerReferenceAPIVersion = ''v1'', Status = []\<rparr>"

definition treeA1 :: "CompositionTreeNode list" where
  "treeA1 = [\<lparr>Level = 2, ChildKind = ''B'', Children = [objB1]\<rparr>]"

text \<open>The same cluster when the request that lists kind \<open>B\<close> fails.\<close>

definition clusterABdown :: "string \<Rightarrow> response" where
  "clusterABdown url =
     (if url = ''https://10.0.0.1:443/api/v1/namespaces/default/bs'' then RequestFailed
      else clusterAB url)"

definition envABdown :: env where
  "envABdown = envAB\<lparr>httpGet := clusterABdown\<rparr>"

subsection \<open>A cluster in which every chain of the schema is inhabited\<close>

text \<open>
  Every listing answers with one instance named \<open>x\<close> that names \<open>x\<close> as its owner, so the
  build that starts at an instance \<open>x\<close> descends along every child-chain of the schema.
\<close>

definition objX :: MetaDataAndOwnerReferences where
  "objX = emptyMetaDataRef\<lparr>MetaDataName := ''x'', OwnerReferenceName := ''x''\<rparr>"

definition listingX :: json where
  "listingX =
     listing [JObject [(''metadata'',
       JObject [(''name'', JString ''x''),
                (''ownerReferences'', JArray [JObject [(''name'', JString ''x'')]])])]]"

definition envX :: "(string \<times> string list) list \<Rightarrow> env" where
  "envX schema =
     \<lparr>serviceHost = ''10.0.0.1'', servicePort = ''443'', Namespace = ''default'',
      KindPluralMap = [], kindVersionMap = [], compositionMap = schema,
      tokenReadable = True, caCertReadable = True, httpGet = (\<lambda>url. Body listingX)\<rparr>"

section \<open>Properties of the store\<close>

lemma storeProvenanceLoop_eq:
  "Kind provenance = kind \<Longrightarrow> Name provenance = name \<Longrightarrow>
   storeProvenanceLoop provenance topLevelObject cp present =
     (map (replaceTreeAndStatus kind name (Status topLevelObject) (CompositionTree provenance)) cp,
      present \<or> filter (sameIdentity kind name) cp \<noteq> [])"
  by (induction cp arbitrary: present)
     (auto simp: replaceTreeAndStatus_def sameIdentity_def)

lemma storeProvenance_eq:
  "storeProvenance cp topLevelObject kind name tree =
     (if filter (sameIdentity kind name) cp = []
      then cp @ [\<lparr>Kind = kind, Name = name, ProvStatus = Status topLevelObject,
                  CompositionTree = tree\<rparr>]
      else map (replaceTreeAndStatus kind name (Status topLevelObject) tree) cp)"
proof -
  have untouched: "map (replaceTreeAndStatus kind name s tree) cp = cp"
    if "filter (sameIdentity kind name) cp = []" for s
    using that by (induction cp) (auto simp: replaceTreeAndStatus_def split: if_splits)
  show ?thesis
    by (simp add: storeProvenance_def Let_def storeProvenanceLoop_eq untouched)
qed

lemma replaceTreeAndStatus_idem:
  "replaceTreeAndStatus kind name status tree (replaceTreeAndStatus kind name status tree prov) =
     replaceTreeAndStatus kind name status tree prov"
  by (simp add: replaceTreeAndStatus_def sameIdentity_def)

lemma sameIdentity_replaceTreeAndStatus:
  "sameIdentity kind name (replaceTreeAndStatus kind name status tree prov) =
     sameIdentity kind name prov"
  by (simp add: replaceTreeAndStatus_def sameIdentity_def)

lemma filter_sameIdentity_replace:
  "filter (sameIdentity kind name) (map (replaceTreeAndStatus kind name status tree) cp) = [] \<longleftrightarrow>
     filter (sameIdentity kind name) cp = []"
  by (induction cp) (simp_all add: sameIdentity_replaceTreeAndStatus)

lemma replace_untouched:
  "filter (sameIdentity kind name) cp = [] \<Longrightarrow>
     map (replaceTreeAndStatus kind name status tree) cp = cp"
  by (induction cp) (auto simp: replaceTreeAndStatus_def split: if_splits)

text \<open>
  Claim C5. \<open>storeProvenance\<close> is idempotent: for every store, storing the same top-level
  object, kind, name and tree a second time leaves the store as the first call left it.
\<close>

theorem storeProvenance_idempotent:
  "storeProvenance (storeProvenance cp topLevelObject kind name tree) topLevelObject kind name tree =
     storeProvenance cp topLevelObject kind name tree"
proof (cases "filter (sameIdentity kind name) cp = []")
  case True
  let ?new = "\<lparr>Kind = kind, Name = name, ProvStatus = Status topLevelObject,
                CompositionTree = tree\<rparr>"
  have first: "storeProvenance cp topLevelObject kind name tree = cp @ [?new]"
    using True by (simp add: storeProvenance_eq)
  have found: "filter (sameIdentity kind name) (cp @ [?new]) \<noteq> []"
    by (simp add: sameIdentity_def)
  have same: "replaceTreeAndStatus kind name (Status topLevelObject) tree ?new = ?new"
    by (simp add: replaceTreeAndStatus_def)
  have "storeProvenance (cp @ [?new]) topLevelObject kind name tree =
          map (replaceTreeAndStatus kind name (Status topLevelObject) tree) (cp @ [?new])"
    using found by (simp only: storeProvenance_eq if_False)
  also have "\<dots> = cp @ [?new]"
    using True same by (simp add: replace_untouched)
  finally show ?thesis
    by (simp only: first)
next
  case False
  let ?f = "replaceTreeAndStatus kind name (Status topLevelObject) tree"
  have first: "storeProvenance cp topLevelObject kind name tree = map ?f cp"
    using False by (simp add: storeProvenance_eq)
  have "filter (sameIdentity kind name) (map ?f cp) \<noteq> []"
    using False by (simp add: filter_sameIdentity_replace)
  then have "storeProvenance (map ?f cp) topLevelObject kind name tree = map ?f (map ?f cp)"
    by (simp only: storeProvenance_eq if_False)
  also have "\<dots> = map ?f cp"
    by (simp add: replaceTreeAndStatus_idem)
  finally show ?thesis
    by (simp only: first)
qed

text \<open>
  Claim C6. When the store holds a record with the kind and name that are stored,
  \<open>storeProvenance\<close> returns a store of the same length in which, position by position, a
  record with that kind and name has the new tree and status and every other record is
  the one that stood there; when it holds none, the result is the old store with the new
  record appended at the end.
\<close>

theorem storeProvenance_replaces_or_appends:
  "(filter (sameIdentity kind name) cp \<noteq> [] \<longrightarrow>
      length (storeProvenance cp topLevelObject kind name tree) = length cp \<and>
      (\<forall>i < length cp.
         storeProvenance cp topLevelObject kind name tree ! i =
           (if Kind (cp ! i) = kind \<and> Name (cp ! i) = name
            then (cp ! i)\<lparr>CompositionTree := tree, ProvStatus := Status topLevelObject\<rparr>
            else cp ! i))) \<and>
   (filter (sameIdentity kind name) cp = [] \<longrightarrow>
      storeProvenance cp topLevelObject kind name tree =
        cp @ [\<lparr>Kind = kind, Name = name, ProvStatus = Status topLevelObject,
                CompositionTree = tree\<rparr>])"
  by (simp add: storeProvenance_eq replaceTreeAndStatus_def sameIdentity_def)

theorem storeProvenance_replaces_or_appends_witness:
  "storeProvenance [rec2, rec1] obj1 ''Deployment'' ''web'' tree1 =
     [rec2, rec1\<lparr>CompositionTree := tree1, ProvStatus := ''Ready''\<rparr>] \<and>
   storeProvenance [rec2] obj1 ''Deployment'' ''web'' tree1 =
     [rec2, \<lparr>Kind = ''Deployment'', Name = ''web'', ProvStatus = ''Ready'',
             CompositionTree = tree1\<rparr>]"
proof -
  have found: "filter (sameIdentity ''Deployment'' ''web'') [rec2, rec1] \<noteq> []"
    by (simp add: sameIdentity_def rec1_def rec2_def)
  have none: "filter (sameIdentity ''Deployment'' ''web'') [rec2] = []"
    by (simp add: sameIdentity_def rec2_def)
  from storeProvenance_replaces_or_appends [of "''Deployment''" "''web''" "[rec2, rec1]" obj1 tree1] found
  have len: "length (storeProvenance [rec2, rec1] obj1 ''Deployment'' ''web'' tree1) = 2"
    and nth: "\<forall>i<2. storeProvenance [rec2, rec1] obj1 ''Deployment'' ''web'' tree1 ! i =
           (if Kind ([rec2, rec1] ! i) = ''Deployment'' \<and> Name ([rec2, rec1] ! i) = ''web''
            then ([rec2, rec1] ! i)\<lparr>CompositionTree := tree1, ProvStatus := Status obj1\<rparr>
            else [rec2, rec1] ! i)"
    by simp_all
  have "storeProvenance [rec2, rec1] obj1 ''Deployment'' ''web'' tree1 ! 0 = rec2"
    using nth by (simp add: rec2_def)
  moreover have "storeProvenance [rec2, rec1] obj1 ''Deployment'' ''web'' tree1 ! 1 =
      rec1\<lparr>CompositionTree := tree1, ProvStatus := ''Ready''\<rparr>"
    using nth by (simp add: rec1_def obj1_def)
  ultimately have a: "storeProvenance [rec2, rec1] obj1 ''Deployment'' ''web'' tree1 =
     [rec2, rec1\<lparr>CompositionTree := tree1, ProvStatus := ''Ready''\<rparr>]"
    using len by (intro nth_equalityI) (auto simp: less_Suc_eq numeral_2_eq_2)
  from storeProvenance_replaces_or_appends [of "''Deployment''" "''web''" "[rec2]" obj1 tree1] none
  have b: "storeProvenance [rec2] obj1 ''Deployment'' ''web'' tree1 =
     [rec2, \<lparr>Kind = ''Deployment'', Name = ''web'', ProvStatus = ''Ready'',
             CompositionTree = tree1\<rparr>]"
    by (simp add: obj1_def)
  from a b show ?thesis by simp
qed

lemma purgeInner_eq:
  "purgeInner prov seen presentList =
     presentList @ replicate (length (filter (\<lambda>t. MetaDataName t = Name prov) seen)) prov"
  by (induction seen arbitrary: presentList) (simp_all add: replicate_append_same)

lemma purgeOuter_eq:
  "purgeOuter cp seen presentList =
     presentList @
     concat (map (\<lambda>prov. replicate (length (filter (\<lambda>t. MetaDataName t = Name prov) seen)) prov) cp)"
  by (induction cp arbitrary: presentList) (simp_all add: purgeInner_eq)

lemma count_distinct_names:
  "distinct (map MetaDataName seen) \<Longrightarrow>
     length (filter (\<lambda>t. MetaDataName t = n) seen) = (if n \<in> set (map MetaDataName seen) then 1 else 0)"
  by (induction seen) auto

lemma purge_distinct:
  "distinct (map MetaDataName seen) \<Longrightarrow>
     concat (map (\<lambda>prov. replicate (length (filter (\<lambda>t. MetaDataName t = Name prov) seen)) prov) cp) =
     filter (\<lambda>prov. Name prov \<in> set (map MetaDataName seen)) cp"
  by (induction cp) (simp_all add: count_distinct_names)

text \<open>
  Claim C4. For every store and every list of seen objects, the records of the store after
  \<open>purgeCompositionOfDeletedItems\<close> are exactly the records of the store before it
  whose name is the name of a seen object (the kind is not looked at). When the seen
  objects have pairwise different names, as the list that the refresh loop collects has,
  the new store is the old one with the other records filtered out, in the old order.
  (A record is copied once per seen object that carries its name.)
\<close>

theorem purge_keeps_exactly_seen_names:
  "set (purgeCompositionOfDeletedItems cp seen) =
     {prov \<in> set cp. Name prov \<in> set (map MetaDataName seen)} \<and>
   (distinct (map MetaDataName seen) \<longrightarrow>
      purgeCompositionOfDeletedItems cp seen =
        filter (\<lambda>prov. Name prov \<in> set (map MetaDataName seen)) cp)"
proof
  have occurs: "length (filter (\<lambda>t. MetaDataName t = n) seen) \<noteq> 0 \<longleftrightarrow>
      n \<in> set (map MetaDataName seen)" for n
    by (induction seen) auto
  have "set (concat (map (\<lambda>prov. replicate (c prov) prov) cp)) = {prov \<in> set cp. c prov \<noteq> 0}"
    for c :: "Provenance \<Rightarrow> nat"
    by (induction cp) auto
  then show "set (purgeCompositionOfDeletedItems cp seen) =
     {prov \<in> set cp. Name prov \<in> set (map MetaDataName seen)}"
    by (simp only: purgeCompositionOfDeletedItems_def purgeOuter_eq append_Nil occurs)
  show "distinct (map MetaDataName seen) \<longrightarrow>
      purgeCompositionOfDeletedItems cp seen =
        filter (\<lambda>prov. Name prov \<in> set (map MetaDataName seen)) cp"
    by (simp add: purgeCompositionOfDeletedItems_def purgeOuter_eq purge_distinct)
qed

theorem purge_keeps_exactly_seen_names_witness:
  "distinct (map MetaDataName [obj1]) \<and>
   purgeCompositionOfDeletedItems [rec1, rec3, rec2] [obj1] = [rec1, rec2]"
  using purge_keeps_exactly_seen_names [of "[rec1, rec3, rec2]" "[obj1]"]
  by (simp add: obj1_def rec1_def rec2_def rec3_def emptyMetaDataRef_def)

section \<open>Properties of \<open>parseMetaData\<close>\<close>

lemma ownerReferenceFields_Status:
  "ownerReferenceFields m r = Inr r' \<Longrightarrow> Status r' = Status r"
  by (induction m arbitrary: r) (auto split: if_splits json.splits)

lemma ownerReferences_Status:
  "ownerReferences xs r = Inr r' \<Longrightarrow> Status r' = Status r"
  by (induction xs arbitrary: r)
     (auto split: json.splits sum.splits dest: ownerReferenceFields_Status)

lemma metadataFields_Status:
  "metadataFields m r = Inr r' \<Longrightarrow> Status r' = Status r"
  by (induction m arbitrary: r)
     (auto split: if_splits json.splits sum.splits dest: ownerReferences_Status)

lemma processMetadata_Status:
  "processMetadata v r = Inr r' \<Longrightarrow> Status r' = Status r"
  by (auto simp: processMetadata_def split: json.splits dest: metadataFields_Status)

lemma statusFields_result:
  "statusFields m (r, a, b, c) = Inr (r', a', b', c') \<Longrightarrow> distinct (map fst m) \<Longrightarrow>
     Status r' = (case stringField m ''phase'' of Some p \<Rightarrow> p | None \<Rightarrow> Status r) \<and>
     a' = (case numberField m ''replicas'' of Some x \<Rightarrow> x | None \<Rightarrow> a) \<and>
     b' = (case numberField m ''readyReplicas'' of Some x \<Rightarrow> x | None \<Rightarrow> b) \<and>
     c' = (case numberField m ''availableReplicas'' of Some x \<Rightarrow> x | None \<Rightarrow> c)"
proof (induction m arbitrary: r a b c)
  case Nil
  then show ?case by (simp add: stringField_def numberField_def)
next
  case (Cons kv m)
  obtain k v where kv: "kv = (k, v)" by (cases kv)
  from Cons.prems(2) kv have absent: "map_of m k = None" and dist: "distinct (map fst m)"
    by (auto simp: map_of_eq_None_iff)
  show ?case
    using Cons.prems(1) Cons.IH dist absent unfolding kv
    by (auto simp: stringField_def numberField_def split: if_splits json.splits)
qed

lemma processStatus_Status:
  assumes "processStatus (JObject m) r = Inr r'" and "distinct (map fst m)"
  shows "Status r' = specStatus m (Status r)"
proof -
  from assms(1) obtain r1 a b c where
    fields: "statusFields m (r, 0, 0, 0) = Inr (r1, a, b, c)" and
    r': "r' = (if a > 0 then (if a = c \<and> a = b then r1\<lparr>Status := ''Ready''\<rparr> else r1) else r1)"
    by (auto simp: processStatus_def split: sum.splits)
  note res = statusFields_result [OF fields assms(2)]
  have ready: "specReady m \<longleftrightarrow> a > 0 \<and> a = c \<and> a = b"
    using res by (auto simp: specReady_def split: option.splits)
  show ?thesis
    using res ready r' by (auto simp: specStatus_def)
qed

lemma specStatus_idem: "specStatus m (specStatus m s) = specStatus m s"
  by (simp add: specStatus_def split: option.splits)

lemma ownerReferenceFields_MetaDataName:
  "ownerReferenceFields m r = Inr r' \<Longrightarrow> MetaDataName r' = MetaDataName r"
  by (induction m arbitrary: r) (auto split: if_splits json.splits)

lemma ownerReferences_MetaDataName:
  "ownerReferences xs r = Inr r' \<Longrightarrow> MetaDataName r' = MetaDataName r"
  by (induction xs arbitrary: r)
     (auto split: json.splits sum.splits dest: ownerReferenceFields_MetaDataName)

lemma specName_Cons:
  "specName ((k, v) # d) x =
     (if k = ''name'' then (case v of JString s \<Rightarrow> s | _ \<Rightarrow> x) else specName d x)"
  by (simp add: specName_def stringField_def split: json.splits)

lemma specName_absent: "map_of d ''name'' = None \<Longrightarrow> specName d x = x"
  by (simp add: specName_def stringField_def)

lemma metadataFields_MetaDataName:
  "metadataFields d r = Inr r' \<Longrightarrow> distinct (map fst d) \<Longrightarrow>
     MetaDataName r' = specName d (MetaDataName r)"
proof (induction d arbitrary: r)
  case Nil
  then show ?case by (simp add: specName_def stringField_def)
next
  case (Cons kv d)
  obtain k v where kv: "kv = (k, v)" by (cases kv)
  from Cons.prems(2) kv have absent: "map_of d k = None" and dist: "distinct (map fst d)"
    by (auto simp: map_of_eq_None_iff)
  show ?case
  proof (cases "k = ''ownerReferences''")
    case True
    with Cons.prems(1) kv obtain xs r1 where
      "ownerReferences xs r = Inr r1" and rest: "metadataFields d r1 = Inr r'"
      by (auto split: json.splits sum.splits)
    then have "MetaDataName r1 = MetaDataName r"
      by (simp add: ownerReferences_MetaDataName)
    with Cons.IH [OF rest dist] True show ?thesis
      by (simp add: kv specName_Cons)
  next
    case False
    show ?thesis
    proof (cases "k = ''name''")
      case True
      with Cons.prems(1) kv obtain s where v: "v = JString s"
        and rest: "metadataFields d (r\<lparr>MetaDataName := s\<rparr>) = Inr r'"
        by (auto split: json.splits)
      from Cons.IH [OF rest dist] absent True have "MetaDataName r' = s"
        by (simp add: specName_absent)
      with True v show ?thesis
        by (simp add: kv specName_Cons)
    next
      case notName: False
      with Cons.prems(1) kv False have rest: "metadataFields d r = Inr r'"
        by simp
      from Cons.IH [OF rest dist] notName show ?thesis
        by (simp add: kv specName_Cons)
    qed
  qed
qed

lemma processMetadata_MetaDataName:
  "processMetadata (JObject d) r = Inr r' \<Longrightarrow> distinct (map fst d) \<Longrightarrow>
     MetaDataName r' = specName d (MetaDataName r)"
  by (simp add: processMetadata_def metadataFields_MetaDataName)

lemma statusFields_MetaDataName:
  "statusFields m (r, a, b, c) = Inr (r', a', b', c') \<Longrightarrow> MetaDataName r' = MetaDataName r"
proof (induction m arbitrary: r a b c)
  case Nil
  then show ?case by simp
next
  case (Cons kv m)
  obtain k v where kv: "kv = (k, v)" by (cases kv)
  show ?case
    using Cons.prems Cons.IH unfolding kv
    by (auto split: if_splits json.splits)
qed

lemma processStatus_MetaDataName:
  "processStatus v r = Inr r' \<Longrightarrow> MetaDataName r' = MetaDataName r"
  by (auto simp: processStatus_def split: json.splits sum.splits if_splits
      dest: statusFields_MetaDataName)

lemma specName_idem: "specName d (specName d s) = specName d s"
  by (simp add: specName_def split: option.splits)

lemma itemFields_metadata_object:
  "itemFields b item st slice = Inr out \<Longrightarrow> (''metadata'', v) \<in> set item \<Longrightarrow> \<exists>d. v = JObject d"
proof (induction item arbitrary: st slice)
  case Nil
  then show ?case by simp
next
  case (Cons kv item)
  obtain key w where kv: "kv = (key, w)" by (cases kv)
  obtain r mp sp where st: "st = (r, mp, sp)" by (cases st)
  show ?case
  proof (cases "kv = (''metadata'', v)")
    case True
    with Cons.prems(1) show ?thesis
      unfolding st by (auto simp: processMetadata_def split: sum.splits if_splits json.splits)
  next
    case False
    with Cons.prems(2) have "(''metadata'', v) \<in> set item" by simp
    moreover from Cons.prems(1) obtain st' slice' where "itemFields b item st' slice' = Inr out"
      unfolding st kv by (auto split: sum.splits if_splits)
    ultimately show ?thesis by (rule Cons.IH [rotated])
  qed
qed

lemma itemFields_status_object:
  "itemFields b item st slice = Inr out \<Longrightarrow> (''status'', v) \<in> set item \<Longrightarrow> \<exists>m. v = JObject m"
proof (induction item arbitrary: st slice)
  case Nil
  then show ?case by simp
next
  case (Cons kv item)
  obtain key w where kv: "kv = (key, w)" by (cases kv)
  obtain r mp sp where st: "st = (r, mp, sp)" by (cases st)
  show ?case
  proof (cases "kv = (''status'', v)")
    case True
    with Cons.prems(1) show ?thesis
      unfolding st by (auto simp: processStatus_def split: sum.splits if_splits json.splits)
  next
    case False
    with Cons.prems(2) have "(''status'', v) \<in> set item" by simp
    moreover from Cons.prems(1) obtain st' slice' where "itemFields b item st' slice' = Inr out"
      unfolding st kv by (auto split: sum.splits if_splits)
    ultimately show ?thesis by (rule Cons.IH [rotated])
  qed
qed

lemma itemFields_group:
  assumes "itemFields b item (r, mp, sp) slice = Inr out"
    and "\<And>v. (''status'', v) \<in> set item \<Longrightarrow> v = JObject m"
    and "distinct (map fst m)"
    and "\<And>v. (''metadata'', v) \<in> set item \<Longrightarrow> v = JObject d"
    and "distinct (map fst d)"
    and "Status r = (if sp then specStatus m [] else [])"
    and "MetaDataName r = (if mp then specName d [] else [])"
    and "b \<or> (\<not> sp \<and> ''status'' \<notin> fst ` set item)"
  shows "\<exists>group. out = slice @ group \<and>
      list_all (\<lambda>s. Status s = (if b then specStatus m [] else []) \<and>
                     MetaDataName s = specName d []) group \<and>
      (group \<noteq> [] \<longleftrightarrow>
         item \<noteq> [] \<and> (mp \<or> ''metadata'' \<in> fst ` set item) \<and>
         (\<not> b \<or> sp \<or> ''status'' \<in> fst ` set item))"
  using assms
proof (induction item arbitrary: r mp sp slice)
  case Nil
  then show ?case by simp
next
  case (Cons kv item)
  obtain key v where kv: "kv = (key, v)" by (cases kv)
  from Cons.prems(1) obtain r1 mp1 where
    step1: "(if key = ''metadata''
            then (case processMetadata v r of Inl p \<Rightarrow> Inl p | Inr x \<Rightarrow> Inr (x, True))
            else Inr (r, mp)) = Inr (r1, mp1)"
    unfolding kv by (auto split: sum.splits)
  from Cons.prems(1) step1 obtain r2 sp1 where
    step2: "(if key = ''status''
             then (case processStatus v r1 of Inl p \<Rightarrow> Inl p | Inr x \<Rightarrow> Inr (x, True))
             else Inr (r1, sp)) = Inr (r2, sp1)"
    unfolding kv by (auto split: sum.splits)
  let ?now = "if b then mp1 \<and> sp1 else mp1"
  let ?slice' = "if ?now then slice @ [r2] else slice"
  from Cons.prems(1) step1 step2
  have rest: "itemFields b item (r2, mp1, sp1) ?slice' = Inr out"
    unfolding kv by (auto split: sum.splits if_splits)
  have mp1: "mp1 = (mp \<or> key = ''metadata'')"
    using step1 by (auto split: if_splits sum.splits)
  have sp1: "sp1 = (sp \<or> key = ''status'')"
    using step2 by (auto split: if_splits sum.splits)
  have st1: "Status r1 = Status r"
    using step1 by (auto split: if_splits sum.splits dest: processMetadata_Status)
  have nm1: "MetaDataName r1 = (if mp1 then specName d [] else [])"
  proof (cases "key = ''metadata''")
    case True
    with Cons.prems(4) kv have v: "v = JObject d" by simp
    from step1 True v have pm: "processMetadata (JObject d) r = Inr r1" and "mp1"
      by (auto split: sum.splits)
    from processMetadata_MetaDataName [OF pm Cons.prems(5)] Cons.prems(7) \<open>mp1\<close>
    show ?thesis by (auto simp: specName_idem)
  next
    case False
    with step1 Cons.prems(7) show ?thesis by auto
  qed
  have st2: "Status r2 = (if sp1 then specStatus m [] else [])"
  proof (cases "key = ''status''")
    case True
    with Cons.prems(2) kv have v: "v = JObject m" by simp
    from step2 True v have ps: "processStatus (JObject m) r1 = Inr r2" and "sp1"
      by (auto split: sum.splits)
    from processStatus_Status [OF ps Cons.prems(3)] st1 Cons.prems(6) \<open>sp1\<close>
    show ?thesis by (auto simp: specStatus_idem)
  next
    case False
    with step2 st1 Cons.prems(6) show ?thesis by auto
  qed
  have nm2: "MetaDataName r2 = (if mp1 then specName d [] else [])"
    using step2 nm1 by (auto split: if_splits sum.splits dest: processStatus_MetaDataName)
  have b': "b \<or> (\<not> sp1 \<and> ''status'' \<notin> fst ` set item)"
    using Cons.prems(8) sp1 kv by auto
  have "\<exists>group. out = ?slice' @ group \<and>
      list_all (\<lambda>s. Status s = (if b then specStatus m [] else []) \<and>
                     MetaDataName s = specName d []) group \<and>
      (group \<noteq> [] \<longleftrightarrow>
         item \<noteq> [] \<and> (mp1 \<or> ''metadata'' \<in> fst ` set item) \<and>
         (\<not> b \<or> sp1 \<or> ''status'' \<in> fst ` set item))"
  proof (rule Cons.IH [OF rest _ Cons.prems(3) _ Cons.prems(5) st2 nm2 b'])
    show "\<And>v. (''status'', v) \<in> set item \<Longrightarrow> v = JObject m"
      using Cons.prems(2) by simp
    show "\<And>v. (''metadata'', v) \<in> set item \<Longrightarrow> v = JObject d"
      using Cons.prems(4) by simp
  qed
  then obtain group' where
    H: "out = ?slice' @ group' \<and>
      list_all (\<lambda>s. Status s = (if b then specStatus m [] else []) \<and>
                     MetaDataName s = specName d []) group' \<and>
      (group' \<noteq> [] \<longleftrightarrow>
         item \<noteq> [] \<and> (mp1 \<or> ''metadata'' \<in> fst ` set item) \<and>
         (\<not> b \<or> sp1 \<or> ''status'' \<in> fst ` set item))" ..
  note out = H [THEN conjunct1]
    and all = H [THEN conjunct2, THEN conjunct1]
    and ne = H [THEN conjunct2, THEN conjunct2]
  let ?group = "(if ?now then [r2] else []) @ group'"
  have a: "out = slice @ ?group"
    using out by simp
  have good: "Status r2 = (if b then specStatus m [] else []) \<and> MetaDataName r2 = specName d []"
    if "?now"
  proof (cases b)
    case True
    with that st2 nm2 show ?thesis by simp
  next
    case False
    with b' have "\<not> sp1" by simp
    with that False st2 nm2 show ?thesis by simp
  qed
  have c: "list_all (\<lambda>s. Status s = (if b then specStatus m [] else []) \<and>
                     MetaDataName s = specName d []) ?group"
    using all good by simp
  define Km where "Km = (key = ''metadata'')"
  define Ks where "Ks = (key = ''status'')"
  define A where "A = (''metadata'' \<in> fst ` set item)"
  define B where "B = (''status'' \<in> fst ` set item)"
  define G where "G = (group' \<noteq> [])"
  have empty: "item = [] \<longrightarrow> \<not> A \<and> \<not> B"
    by (simp add: A_def B_def)
  have kA: "(''metadata'' \<in> fst ` set (kv # item)) = (Km \<or> A)"
    by (auto simp: kv Km_def A_def)
  have kB: "(''status'' \<in> fst ` set (kv # item)) = (Ks \<or> B)"
    by (auto simp: kv Ks_def B_def)
  have G: "G = (item \<noteq> [] \<and> (mp1 \<or> A) \<and> (\<not> b \<or> sp1 \<or> B))"
    using ne by (simp only: G_def A_def B_def)
  have m1: "mp1 = (mp \<or> Km)" using mp1 by (simp only: Km_def)
  have s1: "sp1 = (sp \<or> Ks)" using sp1 by (simp only: Ks_def)
  have both: "((if b then mp1 \<and> sp1 else mp1) \<or> G) =
        ((mp \<or> Km \<or> A) \<and> (\<not> b \<or> sp \<or> Ks \<or> B))"
    using empty unfolding G m1 s1 by auto
  have g: "(?group \<noteq> []) = ((if b then mp1 \<and> sp1 else mp1) \<or> G)"
    by (simp add: G_def)
  have e: "?group \<noteq> [] \<longleftrightarrow>
         kv # item \<noteq> [] \<and> (mp \<or> ''metadata'' \<in> fst ` set (kv # item)) \<and>
         (\<not> b \<or> sp \<or> ''status'' \<in> fst ` set (kv # item))"
    unfolding kA kB g both by simp
  show ?case
    by (intro exI [of _ ?group] conjI) (rule a, rule c, rule e)
qed

lemma entriesAt_Cons:
  "entriesAt k ((k', v) # entries) = (if k' = k then v # entriesAt k entries else entriesAt k entries)"
  by (simp add: entriesAt_def)

lemma entriesAt_Nil: "entriesAt k [] = []"
  by (simp add: entriesAt_def)

lemma ownerReferenceFields_returns:
  "list_all isString (entriesAt ''name'' m) \<Longrightarrow> list_all isString (entriesAt ''kind'' m) \<Longrightarrow>
   list_all isString (entriesAt ''apiVersion'' m) \<Longrightarrow> \<exists>r'. ownerReferenceFields m r = Inr r'"
proof (induction m arbitrary: r)
  case Nil
  show ?case by simp
next
  case (Cons kv m)
  obtain k v where kv: "kv = (k, v)" by (cases kv)
  show ?case
    using Cons.prems Cons.IH unfolding kv
    by (cases v) (auto simp: entriesAt_Cons split: if_splits)
qed

lemma ownerReferences_returns:
  "list_all wellTypedOwnerReference xs \<Longrightarrow> \<exists>r'. ownerReferences xs r = Inr r'"
proof (induction xs arbitrary: r)
  case Nil
  show ?case by simp
next
  case (Cons x xs)
  from Cons.prems obtain entries where x: "x = JObject entries"
    and typed: "list_all isString (entriesAt ''name'' entries)"
      "list_all isString (entriesAt ''kind'' entries)"
      "list_all isString (entriesAt ''apiVersion'' entries)"
    and rest: "list_all wellTypedOwnerReference xs"
    by (cases x) auto
  from ownerReferenceFields_returns [OF typed] obtain r1 where
    "ownerReferenceFields entries r = Inr r1" ..
  with Cons.IH [OF rest, of r1] x show ?case by simp
qed

lemma metadataFields_returns:
  "list_all isString (entriesAt ''name'' d) \<Longrightarrow>
   list_all wellTypedOwnerReferences (entriesAt ''ownerReferences'' d) \<Longrightarrow>
   \<exists>r'. metadataFields d r = Inr r'"
proof (induction d arbitrary: r)
  case Nil
  show ?case by simp
next
  case (Cons kv d)
  obtain k v where kv: "kv = (k, v)" by (cases kv)
  show ?case
  proof (cases "k = ''ownerReferences''")
    case True
    with Cons.prems kv obtain xs where v: "v = JArray xs" and xs: "list_all wellTypedOwnerReference xs"
      and rest: "list_all isString (entriesAt ''name'' d)"
        "list_all wellTypedOwnerReferences (entriesAt ''ownerReferences'' d)"
      by (cases v) (auto simp: entriesAt_Cons)
    from ownerReferences_returns [OF xs] obtain r1 where "ownerReferences xs r = Inr r1" ..
    with Cons.IH [OF rest, of r1] True v show ?thesis by (simp add: kv)
  next
    case False
    with Cons.prems Cons.IH show ?thesis
      unfolding kv by (cases v) (auto simp: entriesAt_Cons split: if_splits)
  qed
qed

lemma statusFields_returns:
  "list_all isString (entriesAt ''phase'' m) \<Longrightarrow> list_all isNumber (entriesAt ''replicas'' m) \<Longrightarrow>
   list_all isNumber (entriesAt ''readyReplicas'' m) \<Longrightarrow>
   list_all isNumber (entriesAt ''availableReplicas'' m) \<Longrightarrow>
   \<exists>st'. statusFields m (r, a, b, c) = Inr st'"
proof (induction m arbitrary: r a b c)
  case Nil
  show ?case by simp
next
  case (Cons kv m)
  obtain k v where kv: "kv = (k, v)" by (cases kv)
  show ?case
    using Cons.prems Cons.IH unfolding kv
    by (cases v) (auto simp: entriesAt_Cons split: if_splits)
qed

lemma processMetadata_returns:
  "wellTypedMetadata v \<Longrightarrow> \<exists>r'. processMetadata v r = Inr r'"
  by (cases v) (auto simp: processMetadata_def intro: metadataFields_returns)

lemma processStatus_returns:
  assumes "wellTypedStatus v"
  shows "\<exists>r'. processStatus v r = Inr r'"
proof -
  from assms obtain m where v: "v = JObject m"
    and typed: "list_all isString (entriesAt ''phase'' m)"
      "list_all isNumber (entriesAt ''replicas'' m)"
      "list_all isNumber (entriesAt ''readyReplicas'' m)"
      "list_all isNumber (entriesAt ''availableReplicas'' m)"
    by (cases v) auto
  from statusFields_returns [OF typed] obtain st' where
    "statusFields m (r, 0, 0, 0) = Inr st'" ..
  then show ?thesis
    by (cases st') (simp add: processStatus_def v)
qed

lemma itemFields_returns:
  "list_all wellTypedMetadata (entriesAt ''metadata'' item) \<Longrightarrow>
   list_all wellTypedStatus (entriesAt ''status'' item) \<Longrightarrow>
   \<exists>out. itemFields b item (r, mp, sp) slice = Inr out"
proof (induction item arbitrary: r mp sp slice)
  case Nil
  show ?case by simp
next
  case (Cons kv item)
  obtain key v where kv: "kv = (key, v)" by (cases kv)
  from Cons.prems kv have rest: "list_all wellTypedMetadata (entriesAt ''metadata'' item)"
      "list_all wellTypedStatus (entriesAt ''status'' item)"
    by (auto simp: entriesAt_Cons split: if_splits)
  have "\<exists>r1 mp1. (if key = ''metadata''
            then (case processMetadata v r of Inl p \<Rightarrow> Inl p | Inr x \<Rightarrow> Inr (x, True))
            else Inr (r, mp)) = Inr (r1, mp1)"
  proof (cases "key = ''metadata''")
    case True
    with Cons.prems(1) kv have "wellTypedMetadata v" by (simp add: entriesAt_Cons)
    from processMetadata_returns [OF this, of r] True show ?thesis by auto
  qed simp
  then obtain r1 mp1 where step1: "(if key = ''metadata''
            then (case processMetadata v r of Inl p \<Rightarrow> Inl p | Inr x \<Rightarrow> Inr (x, True))
            else Inr (r, mp)) = Inr (r1, mp1)" by (elim exE)
  have "\<exists>r2 sp1. (if key = ''status''
             then (case processStatus v r1 of Inl p \<Rightarrow> Inl p | Inr x \<Rightarrow> Inr (x, True))
             else Inr (r1, sp)) = Inr (r2, sp1)"
  proof (cases "key = ''status''")
    case True
    with Cons.prems(2) kv have "wellTypedStatus v" by (simp add: entriesAt_Cons)
    from processStatus_returns [OF this, of r1] True show ?thesis by auto
  qed simp
  then obtain r2 sp1 where step2: "(if key = ''status''
             then (case processStatus v r1 of Inl p \<Rightarrow> Inl p | Inr x \<Rightarrow> Inr (x, True))
             else Inr (r1, sp)) = Inr (r2, sp1)" by (elim exE)
  from Cons.IH [OF rest] step1 step2 show ?case
    unfolding kv by (simp del: split_paired_Ex)
qed

lemma itemsLoop_returns:
  "list_all wellTypedItem items \<Longrightarrow> \<exists>out. itemsLoop items slice = Inr out"
proof (induction items arbitrary: slice)
  case Nil
  show ?case by simp
next
  case (Cons x items)
  from Cons.prems obtain item where x: "x = JObject item"
    and typed: "list_all wellTypedMetadata (entriesAt ''metadata'' item)"
      "list_all wellTypedStatus (entriesAt ''status'' item)"
    and rest: "list_all wellTypedItem items"
    by (cases x) auto
  from itemFields_returns [OF typed] obtain slice' where
    "itemFields (map_of item ''status'' \<noteq> None) item (emptyMetaDataRef, False, False) slice =
       Inr slice'" ..
  with Cons.IH [OF rest, of slice'] x show ?case by simp
qed

lemma item_group:
  assumes "goMaps (JObject item)"
    and fields: "itemFields (map_of item ''status'' \<noteq> None) item
                   (emptyMetaDataRef, False, False) slice = Inr out"
  shows "\<exists>group. out = slice @ group \<and> snapshotsOfItem (JObject item) group"
proof -
  from assms(1) have dist: "distinct (map fst item)" by simp
  have nested: "distinct (map fst entries)" if "(k, JObject entries) \<in> set item" for k entries
    using assms(1) that by (auto simp: list_all_iff)
  have "\<exists>m. (\<forall>v. (''status'', v) \<in> set item \<longrightarrow> v = JObject m) \<and> distinct (map fst m) \<and>
      specItemStatus item = (if map_of item ''status'' \<noteq> None then specStatus m [] else [])"
  proof (cases "map_of item ''status''")
    case None
    then have "\<forall>v. (''status'', v) \<notin> set item"
      by (auto simp: map_of_eq_None_iff intro: rev_image_eqI)
    with None show ?thesis
      by (intro exI [of _ "[]"]) (simp add: specItemStatus_def)
  next
    case (Some v)
    then have mem: "(''status'', v) \<in> set item" by (rule map_of_SomeD)
    from itemFields_status_object [OF fields mem] obtain m where v: "v = JObject m" ..
    have "\<forall>w. (''status'', w) \<in> set item \<longrightarrow> w = v"
      using dist mem by (auto dest: eq_key_imp_eq_value)
    then have "\<forall>w. (''status'', w) \<in> set item \<longrightarrow> w = JObject m"
      by (simp only: v)
    moreover have "distinct (map fst m)"
      using nested mem v by simp
    ultimately show ?thesis
      using Some v by (intro exI [of _ m]) (simp add: specItemStatus_def)
  qed
  then obtain m where
    M: "(\<forall>v. (''status'', v) \<in> set item \<longrightarrow> v = JObject m) \<and> distinct (map fst m) \<and>
      specItemStatus item = (if map_of item ''status'' \<noteq> None then specStatus m [] else [])" ..
  have "\<exists>d. (\<forall>v. (''metadata'', v) \<in> set item \<longrightarrow> v = JObject d) \<and> distinct (map fst d) \<and>
      specItemName item = specName d []"
  proof (cases "map_of item ''metadata''")
    case None
    then have "\<forall>v. (''metadata'', v) \<notin> set item"
      by (auto simp: map_of_eq_None_iff intro: rev_image_eqI)
    with None show ?thesis
      by (intro exI [of _ "[]"]) (simp add: specItemName_def specName_def stringField_def)
  next
    case (Some v)
    then have mem: "(''metadata'', v) \<in> set item" by (rule map_of_SomeD)
    from itemFields_metadata_object [OF fields mem] obtain d where v: "v = JObject d" ..
    have "\<forall>w. (''metadata'', w) \<in> set item \<longrightarrow> w = v"
      using dist mem by (auto dest: eq_key_imp_eq_value)
    then have "\<forall>w. (''metadata'', w) \<in> set item \<longrightarrow> w = JObject d"
      by (simp only: v)
    moreover have "distinct (map fst d)"
      using nested mem v by simp
    ultimately show ?thesis
      using Some v by (intro exI [of _ d]) (simp add: specItemName_def)
  qed
  then obtain d where
    D: "(\<forall>v. (''metadata'', v) \<in> set item \<longrightarrow> v = JObject d) \<and> distinct (map fst d) \<and>
      specItemName item = specName d []" ..
  let ?b = "map_of item ''status'' \<noteq> None"
  have "\<exists>group. out = slice @ group \<and>
      list_all (\<lambda>s. Status s = (if ?b then specStatus m [] else []) \<and>
                     MetaDataName s = specName d []) group \<and>
      (group \<noteq> [] \<longleftrightarrow>
         item \<noteq> [] \<and> (False \<or> ''metadata'' \<in> fst ` set item) \<and>
         (\<not> ?b \<or> False \<or> ''status'' \<in> fst ` set item))"
  proof (rule itemFields_group [OF fields])
    show "\<And>v. (''status'', v) \<in> set item \<Longrightarrow> v = JObject m" using M by simp
    show "distinct (map fst m)" using M by simp
    show "\<And>v. (''metadata'', v) \<in> set item \<Longrightarrow> v = JObject d" using D by simp
    show "distinct (map fst d)" using D by simp
    show "Status emptyMetaDataRef = (if False then specStatus m [] else [])"
      by (simp add: emptyMetaDataRef_def)
    show "MetaDataName emptyMetaDataRef = (if False then specName d [] else [])"
      by (simp add: emptyMetaDataRef_def)
    show "?b \<or> (\<not> False \<and> ''status'' \<notin> fst ` set item)"
      by (simp add: map_of_eq_None_iff)
  qed
  then obtain group where
    G: "out = slice @ group \<and>
      list_all (\<lambda>s. Status s = (if ?b then specStatus m [] else []) \<and>
                     MetaDataName s = specName d []) group \<and>
      (group \<noteq> [] \<longleftrightarrow>
         item \<noteq> [] \<and> (False \<or> ''metadata'' \<in> fst ` set item) \<and>
         (\<not> ?b \<or> False \<or> ''status'' \<in> fst ` set item))" ..
  have keys: "(k \<in> fst ` set item) = (map_of item k \<noteq> None)" for k
    by (simp add: map_of_eq_None_iff)
  have nonempty: "(group \<noteq> []) = (map_of item ''metadata'' \<noteq> None)"
  proof -
    have "item \<noteq> []" if "map_of item ''metadata'' \<noteq> None"
      using that by auto
    then show ?thesis
      using G [THEN conjunct2, THEN conjunct2] unfolding keys by auto
  qed
  have statuses: "list_all (\<lambda>s. Status s = specItemStatus item \<and>
                     MetaDataName s = specItemName item) group"
    using G [THEN conjunct2, THEN conjunct1] M D by simp
  have "snapshotsOfItem (JObject item) group"
    using statuses nonempty by (simp add: snapshotsOfItem_def)
  with G show ?thesis
    by (intro exI [of _ group]) simp
qed

lemma itemsLoop_groups:
  assumes "itemsLoop items slice = Inr out" and "list_all goMaps items"
  shows "\<exists>groups. out = slice @ concat groups \<and> list_all2 snapshotsOfItem items groups"
  using assms
proof (induction items arbitrary: slice)
  case Nil
  then show ?case by simp
next
  case (Cons x items)
  from Cons.prems(1) obtain item slice' where x: "x = JObject item"
    and fields: "itemFields (map_of item ''status'' \<noteq> None) item (emptyMetaDataRef, False, False)
                   slice = Inr slice'"
    and rest: "itemsLoop items slice' = Inr out"
    by (auto split: json.splits sum.splits)
  from Cons.prems(2) x have item: "goMaps (JObject item)" and items: "list_all goMaps items"
    by simp_all
  from item_group [OF item fields] obtain group where
    group: "slice' = slice @ group \<and> snapshotsOfItem (JObject item) group" ..
  from Cons.IH [OF rest items] obtain groups where
    groups: "out = slice' @ concat groups \<and> list_all2 snapshotsOfItem items groups" ..
  have "out = slice @ concat (group # groups)"
    using group groups by simp
  moreover have "list_all2 snapshotsOfItem (x # items) (group # groups)"
    using group groups x by simp
  ultimately show ?case
    by (intro exI [of _ "group # groups"] conjI)
qed

text \<open>
  Claim C7. Take a list response decoded from JSON (so that every object in it has one
  entry per key) whose \<open>items\<close> is an array. When the items have the shape that the
  specification gives them, \<open>parseMetaData\<close> returns. Whenever it returns, the snapshots are,
  item by item and in the order of the items, the snapshots of each item: an item with a
  \<open>metadata\<close> entry yields at least one snapshot and an item without one yields none, and
  every snapshot of an item carries the item's name and the status that the specification
  derives from the status fields of that same item: \<open>"Ready"\<close> when \<open>replicas\<close>,
  \<open>readyReplicas\<close> and \<open>availableReplicas\<close> are present, \<open>replicas\<close> is positive and the
  three are equal; otherwise the raw \<open>phase\<close> when there is one, and the empty string when
  there is none (or when the item has no \<open>status\<close> at all).
\<close>

theorem parseMetaData_status_derivation:
  assumes "goMaps (JObject result)"
    and "map_of result ''items'' = Some (JArray items)"
  shows "(list_all wellTypedItem items \<longrightarrow>
            (\<exists>snapshots. parseMetaData (JObject result) = Inr snapshots)) \<and>
         (\<forall>snapshots. parseMetaData (JObject result) = Inr snapshots \<longrightarrow>
            (\<exists>groups. snapshots = concat groups \<and> list_all2 snapshotsOfItem items groups))"
proof (intro conjI allI impI)
  assume "list_all wellTypedItem items"
  then have "\<exists>out. itemsLoop items [] = Inr out"
    by (rule itemsLoop_returns)
  with assms(2) show "\<exists>snapshots. parseMetaData (JObject result) = Inr snapshots"
    by (simp add: parseMetaData_def)
next
  fix snapshots
  assume returns: "parseMetaData (JObject result) = Inr snapshots"
  from assms(2) have "(''items'', JArray items) \<in> set result"
    by (rule map_of_SomeD)
  with assms(1) have "list_all goMaps items"
    by (auto simp: list_all_iff)
  moreover from assms(2) returns have "itemsLoop items [] = Inr snapshots"
    by (simp add: parseMetaData_def)
  ultimately show "\<exists>groups. snapshots = concat groups \<and> list_all2 snapshotsOfItem items groups"
    using itemsLoop_groups [of items "[]" snapshots] by simp
qed

lemma goMaps_listResponse: "goMaps (JObject listResponse)"
  by (simp add: listResponse_def itemAllReady_def itemPending_def itemTwoOfThree_def
      itemTwoOfThreeNoPhase_def metadataWeb_def)

lemma items_listResponse:
  "map_of listResponse ''items'' =
     Some (JArray [JObject itemAllReady, JObject itemPending, JObject itemTwoOfThree,
                   JObject itemTwoOfThreeNoPhase])"
  by (simp add: listResponse_def)

lemma parse_listResponse:
  "parseMetaData (JObject listResponse) =
     Inr [snapshotWeb ''Ready'', snapshotDb ''Pending'', snapshotDb ''Pending'',
          snapshotWeb ''Progressing'', snapshotWeb []]"
  by (simp add: parseMetaData_def listResponse_def itemAllReady_def itemPending_def
      itemTwoOfThree_def itemTwoOfThreeNoPhase_def metadataWeb_def snapshotWeb_def snapshotDb_def
      processMetadata_def processStatus_def emptyMetaDataRef_def)

lemma spec_examples:
  "specItemStatus itemAllReady = ''Ready''"
  "specItemStatus itemPending = ''Pending''"
  "specItemStatus itemTwoOfThree = ''Progressing''"
  "specItemStatus itemTwoOfThreeNoPhase = []"
  "specItemName itemAllReady = ''web''"
  "specItemName itemPending = ''db''"
  by (simp_all add: specItemStatus_def specStatus_def specReady_def numberField_def stringField_def
      specItemName_def specName_def itemAllReady_def itemPending_def itemTwoOfThree_def
      itemTwoOfThreeNoPhase_def metadataWeb_def)

lemma wellTyped_listResponse:
  "list_all wellTypedItem [JObject itemAllReady, JObject itemPending, JObject itemTwoOfThree,
                           JObject itemTwoOfThreeNoPhase]"
  by (simp add: entriesAt_def itemAllReady_def itemPending_def itemTwoOfThree_def
      itemTwoOfThreeNoPhase_def metadataWeb_def)

theorem parseMetaData_status_derivation_witness:
  "goMaps (JObject listResponse) \<and>
   map_of listResponse ''items'' =
     Some (JArray [JObject itemAllReady, JObject itemPending, JObject itemTwoOfThree,
                   JObject itemTwoOfThreeNoPhase]) \<and>
   list_all wellTypedItem [JObject itemAllReady, JObject itemPending, JObject itemTwoOfThree,
                           JObject itemTwoOfThreeNoPhase] \<and>
   (\<exists>snapshots. parseMetaData (JObject listResponse) = Inr snapshots) \<and>
   parseMetaData (JObject listResponse) =
     Inr [snapshotWeb ''Ready'', snapshotDb ''Pending'', snapshotDb ''Pending'',
          snapshotWeb ''Progressing'', snapshotWeb []] \<and>
   (\<exists>groups.
      [snapshotWeb ''Ready'', snapshotDb ''Pending'', snapshotDb ''Pending'',
       snapshotWeb ''Progressing'', snapshotWeb []] = concat groups \<and>
      list_all2 snapshotsOfItem
        [JObject itemAllReady, JObject itemPending, JObject itemTwoOfThree,
         JObject itemTwoOfThreeNoPhase] groups) \<and>
   specItemStatus itemAllReady = ''Ready'' \<and>
   specItemStatus itemPending = ''Pending'' \<and>
   specItemStatus itemTwoOfThree = ''Progressing'' \<and>
   specItemStatus itemTwoOfThreeNoPhase = [] \<and>
   specItemName itemAllReady = ''web'' \<and>
   specItemName itemPending = ''db''"
proof -
  note both = parseMetaData_status_derivation [OF goMaps_listResponse items_listResponse]
  from both [THEN conjunct1] wellTyped_listResponse
  have returns: "\<exists>snapshots. parseMetaData (JObject listResponse) = Inr snapshots"
    by (rule mp)
  note groups = both [THEN conjunct2, THEN spec, THEN mp, OF parse_listResponse]
  show ?thesis
    by (intro conjI) (rule goMaps_listResponse items_listResponse wellTyped_listResponse
        returns parse_listResponse groups spec_examples)+
qed

lemma itemFields_later_keys:
  "''metadata'' \<notin> fst ` set later \<Longrightarrow> ''status'' \<notin> fst ` set later \<Longrightarrow>
   itemFields True later (r, True, True) slice = Inr (slice @ replicate (length later) r)"
  by (induction later arbitrary: slice) (auto simp: replicate_append_same)

text \<open>
  Claim C10. \<open>parseMetaData\<close> can return more snapshots than the document has items. When
  the keys of an item are visited in the order \<open>metadata\<close>, \<open>status\<close> and then \<open>k\<close> further
  keys, the snapshot is appended when \<open>status\<close> has been processed and once more for each
  of the \<open>k\<close> later keys: a document with this single item yields \<open>k + 1\<close> equal
  snapshots.
\<close>

theorem parseMetaData_appends_per_later_key:
  assumes "processMetadata metadata emptyMetaDataRef = Inr r1"
    and "processStatus status r1 = Inr r2"
    and "''metadata'' \<notin> fst ` set later" and "''status'' \<notin> fst ` set later"
  shows "parseMetaData (listing [JObject ((''metadata'', metadata) # (''status'', status) # later)]) =
           Inr (replicate (Suc (length later)) r2)"
  using assms
  by (simp add: parseMetaData_def listing_def itemFields_later_keys)

theorem parseMetaData_appends_per_later_key_witness:
  "parseMetaData (listing [JObject [(''metadata'', metadataWeb), (''status'', statusRunning),
                                    (''spec'', JObject [])]]) =
     Inr [snapshotWeb ''Running'', snapshotWeb ''Running''] \<and>
   length [JObject [(''metadata'', metadataWeb), (''status'', statusRunning), (''spec'', JObject [])]]
     < length [snapshotWeb ''Running'', snapshotWeb ''Running'']"
proof -
  have m: "processMetadata metadataWeb emptyMetaDataRef = Inr (snapshotWeb [])"
    by (simp add: processMetadata_def metadataWeb_def snapshotWeb_def emptyMetaDataRef_def)
  have s: "processStatus statusRunning (snapshotWeb []) = Inr (snapshotWeb ''Running'')"
    by (simp add: processStatus_def statusRunning_def snapshotWeb_def emptyMetaDataRef_def)
  from parseMetaData_appends_per_later_key [OF m s, of "[(''spec'', JObject [])]"]
  show ?thesis by (simp add: numeral_2_eq_2)
qed

section \<open>Properties of the query engine\<close>

lemma ToLower_idem: "ToLower (ToLower s) = ToLower s"
  by (induction s) (auto simp: ToLower_def toLowerChar_def Let_def)

lemmas ToLower_eval = ToLower_def toLowerChar_def char_of_eq_iff

lemma GetProvenanceLoop_eq:
  "GetProvenanceLoop kindPluralMap plural resourceName cp compositions =
     compositions @ map rootNode (filter (queryMatches kindPluralMap plural resourceName) cp)"
  by (induction cp arbitrary: compositions)
     (auto simp: Let_def queryMatches_def rootNode_def)

lemma resolveKind_unambiguous:
  assumes "(key0, value0) \<in> set kindPluralMap"
    and "ToLower value0 = ToLower plural"
    and "\<forall>(key, value) \<in> set kindPluralMap. ToLower value = ToLower plural \<longrightarrow> ToLower key = k"
  shows "resolveKind kindPluralMap plural = k"
  using assms by (induction kindPluralMap) auto

text \<open>
  Claim C1, as amended. Let the query kind be a key of the plural-name table, letter for
  letter, and let every key of the table whose plural equals the plural of the query kind
  up to letter case be the query kind up to letter case. Then every stored record whose
  kind equals the query kind up to letter case and whose name equals the query name up to
  letter case is among the nodes that \<open>GetProvenance\<close> serialises: the node built from the
  record's tree, with the record's kind and name in lower case.
\<close>

theorem GetProvenance_matches_up_to_case:
  assumes "prov \<in> set cp"
    and "map_of kindPluralMap resourceKind = Some plural"
    and "ToLower resourceKind = ToLower (Kind prov)"
    and "\<forall>(key, value) \<in> set kindPluralMap.
           ToLower value = ToLower plural \<longrightarrow> ToLower key = ToLower resourceKind"
    and "ToLower resourceName = ToLower (Name prov)"
  shows "fst (getComposition (ToLower (Kind prov)) (ToLower (Name prov)) (ProvStatus prov) 1
               (CompositionTree prov) [])
           \<in> set (GetProvenanceCompositions kindPluralMap cp resourceKind resourceName)"
proof -
  from assms(2) have entry: "(resourceKind, plural) \<in> set kindPluralMap"
    by (rule map_of_SomeD)
  have "resolveKind kindPluralMap (ToLower plural) = ToLower resourceKind"
    by (rule resolveKind_unambiguous [OF entry]) (use assms(4) in \<open>simp_all add: ToLower_idem\<close>)
  with assms(3,5) have "queryMatches kindPluralMap plural resourceName prov"
    by (simp add: queryMatches_def)
  with assms(1,2) show ?thesis
    by (simp add: GetProvenanceCompositions_def lookupString_def GetProvenanceLoop_eq rootNode_def)
qed

theorem GetProvenance_matches_up_to_case_witness:
  "recMyApp \<in> set [recMyApp] \<and>
   map_of initKindPluralMap ''Deployment'' = Some ''deployments'' \<and>
   ToLower ''Deployment'' = ToLower (Kind recMyApp) \<and>
   ToLower ''MyApp'' = ToLower (Name recMyApp) \<and>
   Composition 1 ''deployment'' ''myapp'' ''Ready'' []
     \<in> set (GetProvenanceCompositions initKindPluralMap [recMyApp] ''Deployment'' ''MyApp'')"
proof -
  have a: "map_of initKindPluralMap ''Deployment'' = Some ''deployments''"
    by (simp add: initKindPluralMap_def)
  have b: "ToLower ''Deployment'' = ToLower (Kind recMyApp)"
    by (simp add: recMyApp_def)
  have c: "\<forall>(key, value) \<in> set initKindPluralMap.
           ToLower value = ToLower ''deployments'' \<longrightarrow> ToLower key = ToLower ''Deployment''"
    by (simp add: initKindPluralMap_def ToLower_eval)
  have d: "ToLower ''MyApp'' = ToLower (Name recMyApp)"
    by (simp add: recMyApp_def ToLower_eval)
  have e: "recMyApp \<in> set [recMyApp]" by simp
  have f: "fst (getComposition (ToLower (Kind recMyApp)) (ToLower (Name recMyApp))
                 (ProvStatus recMyApp) 1 (CompositionTree recMyApp) []) =
           Composition 1 ''deployment'' ''myapp'' ''Ready'' []"
    by (simp add: recMyApp_def ToLower_eval)
  from GetProvenance_matches_up_to_case [OF e a b c d]
  have g: "Composition 1 ''deployment'' ''myapp'' ''Ready'' []
     \<in> set (GetProvenanceCompositions initKindPluralMap [recMyApp] ''Deployment'' ''MyApp'')"
    by (simp only: f)
  from e a b d g show ?thesis
    by (intro conjI)
qed

text \<open>
  The claim as it is written fails: the query kind is first looked up in the plural-name
  table as it is, so with the table that \<open>init\<close> sets the query
  \<open>("deployment", "MyApp")\<close> finds no plural and returns the empty list, although the
  store holds the record \<open>("Deployment", "myapp")\<close>.
\<close>

theorem GetProvenance_lower_case_kind_misses:
  "GetProvenance initKindPluralMap [recMyApp] ''deployment'' ''MyApp'' = ''[]'' \<and>
   GetProvenanceCompositions initKindPluralMap [recMyApp] ''deployment'' ''MyApp'' = []"
  by (simp add: GetProvenance_def GetProvenanceCompositions_def marshalCompositions_def
      lookupString_def initKindPluralMap_def recMyApp_def ToLower_eval)

section \<open>Build, store and query\<close>

lemma listAndParse_A:
  "listAndParse envAB ''api/v1'' ''as'' = Inr [objA1]"
  by (simp add: listAndParse_def getResourceListContent_def listUrl_def envAB_def clusterAB_def
      HasPrefix_def listingA_def listing_def parseMetaData_def processMetadata_def objA1_def
      emptyMetaDataRef_def)

lemma listAndParse_B:
  "listAndParse envAB ''api/v1'' ''bs'' = Inr [objB1]"
  by (simp add: listAndParse_def getResourceListContent_def listUrl_def envAB_def clusterAB_def
      HasPrefix_def listingB_def listing_def parseMetaData_def processMetadata_def objB1_def
      emptyMetaDataRef_def)

lemma envAB_maps:
  "compositionMap envAB = [(''A'', [''B'']), (''B'', [])]"
  "kindVersionMap envAB = [(''A'', ''api/v1''), (''B'', ''api/v1'')]"
  "KindPluralMap envAB = [(''A'', ''as''), (''B'', ''bs'')]"
  by (simp_all add: envAB_def)

lemma build_A1:
  "buildProvenance (Suc (Suc n)) envAB ''A'' ''a1'' 1 [] = Some (Inr treeA1)"
  by (simp add: envAB_maps lookupString_def listAndParse_B filterChildren_def objB1_def treeA1_def)

lemma query_A1:
  \<open>GetProvenance (KindPluralMap envAB) (storeProvenance [] objA1 ''A'' ''a1'' treeA1) ''A'' ''a1'' =
   ''[{"Level":1,"Kind":"a","Name":"a1","Status":"","Children":[{"Level":2,"Kind":"B","Name":"b1","Status":"","Children":[]}]}]''\<close>
  by (simp add: envAB_maps storeProvenance_def GetProvenance_def GetProvenanceCompositions_def
      lookupString_def objA1_def emptyMetaDataRef_def treeA1_def objB1_def ToLower_eval
      processed_def trimTree_def marshalCompositions_def marshalString_def encodeChar_def
      showInt_def showNat.simps digitChar_def)

lemma getResourceNames_A: "getResourceNames envAB ''A'' = Inr [objA1]"
  by (simp add: getResourceNames_def envAB_maps lookupString_def listAndParse_A)

text \<open>
  Claim C3, as amended. For the schema \<open>A \<rightarrow> [B]\<close>, \<open>B \<rightarrow> []\<close>, one instance \<open>a1\<close> of \<open>A\<close>
  and one instance \<open>b1\<close> of \<open>B\<close> owned by \<open>a1\<close> (neither reporting a status): listing
  \<open>A\<close> gives \<open>a1\<close>, building the tree of \<open>(A, a1)\<close> returns (with two stack frames or
  more) the single level \<open>(2, B, [b1])\<close>, and after storing it the query \<open>(A, a1)\<close>
  returns the document below: the root carries the kind in lower case, and every node
  carries a \<open>Status\<close> field.
\<close>

theorem roundtrip_AB:
  \<open>getResourceNames envAB ''A'' = Inr [objA1] \<and>
   buildProvenance (Suc (Suc n)) envAB ''A'' ''a1'' 1 [] = Some (Inr treeA1) \<and>
   GetProvenance (KindPluralMap envAB) (storeProvenance [] objA1 ''A'' ''a1'' treeA1) ''A'' ''a1'' =
     ''[{"Level":1,"Kind":"a","Name":"a1","Status":"","Children":[{"Level":2,"Kind":"B","Name":"b1","Status":"","Children":[]}]}]''\<close>
  by (simp only: getResourceNames_A build_A1 query_A1 simp_thms)

text \<open>The document of the claim as it is written is not what the query returns.\<close>

theorem roundtrip_AB_not_as_claimed:
  \<open>buildProvenance 2 envAB ''A'' ''a1'' 1 [] = Some (Inr treeA1) \<and>
   GetProvenance (KindPluralMap envAB) (storeProvenance [] objA1 ''A'' ''a1'' treeA1) ''A'' ''a1'' \<noteq>
     ''[{"Level":1,"Kind":"A","Name":"a1","Children":[{"Level":2,"Kind":"B","Name":"b1","Children":[]}]}]''\<close>
proof -
  have "buildProvenance (Suc (Suc 0)) envAB ''A'' ''a1'' 1 [] = Some (Inr treeA1)"
    by (rule build_A1)
  then have "buildProvenance 2 envAB ''A'' ''a1'' 1 [] = Some (Inr treeA1)"
    by (simp only: numeral_2_eq_2)
  then show ?thesis
    by (simp add: query_A1)
qed

section \<open>A listing request that fails\<close>

lemma getResourceListContent_failed:
  "tokenReadable e \<Longrightarrow> caCertReadable e \<Longrightarrow>
   httpGet e (listUrl e resourceApiVersion resourcePlural) = RequestFailed \<Longrightarrow>
   getResourceListContent e resourceApiVersion resourcePlural = Inl NilPointerDereference"
  by (simp add: getResourceListContent_def)

text \<open>
  Claim C2 asks that a child kind whose listing request fails counts as a kind without
  instances and that the refresh cycle goes on. The code does not do that: when the
  request for the first declared child kind fails, \<open>getResourceListContent\<close> panics on the
  nil response, and the panic ends \<open>buildProvenance\<close>, whatever the nesting allowed and
  whatever tree has been collected so far.
\<close>

theorem buildProvenance_failed_listing_panics:
  assumes "map_of (compositionMap e) parentResourceKind = Some (childResourceKind # rest)"
    and "tokenReadable e" and "caCertReadable e"
    and "httpGet e (listUrl e (lookupString (kindVersionMap e) childResourceKind)
                      (lookupString (KindPluralMap e) childResourceKind)) = RequestFailed"
  shows "buildProvenance (Suc n) e parentResourceKind parentResourceName level compositionTree =
           Some (Inl NilPointerDereference)"
  using assms by (simp add: listAndParse_def getResourceListContent_failed)

lemma envABdown_fields:
  "compositionMap envABdown = [(''A'', [''B'']), (''B'', [])]"
  "kindVersionMap envABdown = [(''A'', ''api/v1''), (''B'', ''api/v1'')]"
  "KindPluralMap envABdown = [(''A'', ''as''), (''B'', ''bs'')]"
  "tokenReadable envABdown" "caCertReadable envABdown"
  by (simp_all add: envABdown_def envAB_def)

lemma listUrl_B_down:
  "listUrl envABdown ''api/v1'' ''bs'' = ''https://10.0.0.1:443/api/v1/namespaces/default/bs''"
  by (simp add: listUrl_def envABdown_def envAB_def HasPrefix_def)

lemma getResourceNames_A_down: "getResourceNames envABdown ''A'' = Inr [objA1]"
  by (simp add: getResourceNames_def envABdown_fields lookupString_def listAndParse_def
      getResourceListContent_def listUrl_def envABdown_def envAB_def clusterABdown_def
      clusterAB_def HasPrefix_def listingA_def listing_def parseMetaData_def processMetadata_def
      objA1_def emptyMetaDataRef_def)

text \<open>
  With the request for kind \<open>B\<close> failing, the build of \<open>(A, a1)\<close> panics, and so does the
  whole refresh cycle, from any store: the panic leaves \<open>BuildCompositionTree\<close>.
\<close>

theorem buildProvenance_failed_listing_panics_witness:
  "map_of (compositionMap envABdown) ''A'' = Some [''B''] \<and>
   tokenReadable envABdown \<and> caCertReadable envABdown \<and>
   httpGet envABdown (listUrl envABdown (lookupString (kindVersionMap envABdown) ''B'')
                        (lookupString (KindPluralMap envABdown) ''B'')) = RequestFailed \<and>
   buildProvenance 1 envABdown ''A'' ''a1'' 1 [] = Some (Inl NilPointerDereference) \<and>
   refreshCycle 1 envABdown [] = Some (Inl NilPointerDereference)"
proof -
  have a: "map_of (compositionMap envABdown) ''A'' = Some [''B'']"
    by (simp add: envABdown_fields)
  have d: "httpGet envABdown (listUrl envABdown (lookupString (kindVersionMap envABdown) ''B'')
                        (lookupString (KindPluralMap envABdown) ''B'')) = RequestFailed"
    by (simp add: envABdown_fields lookupString_def listUrl_B_down)
       (simp add: envABdown_def clusterABdown_def)
  have build: "buildProvenance (Suc 0) envABdown ''A'' ''a1'' 1 [] = Some (Inl NilPointerDereference)"
    by (rule buildProvenance_failed_listing_panics [OF a envABdown_fields(4) envABdown_fields(5) d])
  then have "refreshCycle (Suc 0) envABdown [] = Some (Inl NilPointerDereference)"
    by (simp add: refreshCycle_def getResourceKinds_def envABdown_fields(1)
        getResourceNames_A_down objA1_def)
  with build a d show ?thesis
    by (simp only: envABdown_fields One_nat_def simp_thms)
qed

section \<open>Termination of the tree builder\<close>

subsection \<open>Enough stack frames\<close>

lemma buildChildren_returns:
  assumes "\<And>name level tree. \<exists>out. buildProvenance n e kind name level tree = Some out"
  shows "\<exists>out. buildChildren n e kind level members tree = Some out"
proof (induction members arbitrary: tree)
  case Nil
  show ?case by simp
next
  case (Cons m members)
  from assms obtain out where out: "buildProvenance n e kind (MetaDataName m) level tree = Some out"
    by blast
  show ?case
  proof (cases out)
    case (Inl p)
    with out show ?thesis by simp
  next
    case (Inr tree')
    with out Cons.IH [of tree'] show ?thesis by simp
  qed
qed

lemma buildChildKinds_returns:
  assumes "\<And>child name level tree. child \<in> set children \<Longrightarrow>
             \<exists>out. buildProvenance n e child name level tree = Some out"
  shows "\<exists>out. buildChildKinds n e parentName level children tree = Some out"
  using assms
proof (induction children arbitrary: tree)
  case Nil
  show ?case by simp
next
  case (Cons child children)
  show ?case
  proof (cases "listAndParse e (lookupString (kindVersionMap e) child)
                  (lookupString (KindPluralMap e) child)")
    case (Inl p)
    then show ?thesis by simp
  next
    case (Inr found)
    let ?kept = "filterChildren found parentName"
    let ?tree = "tree @ [\<lparr>Level = level, ChildKind = child, Children = ?kept\<rparr>]"
    have "\<exists>out. buildChildren n e child level ?kept ?tree = Some out"
      by (rule buildChildren_returns) (rule Cons.prems, simp)
    then obtain out where out: "buildChildren n e child level ?kept ?tree = Some out" ..
    show ?thesis
    proof (cases out)
      case (Inl p)
      with Inr out show ?thesis by (simp add: Let_def)
    next
      case (Inr tree')
      have "\<exists>out. buildChildKinds n e parentName level children tree' = Some out"
        by (rule Cons.IH) (rule Cons.prems, simp)
      with \<open>listAndParse e _ _ = Inr found\<close> out Inr show ?thesis by (simp add: Let_def)
    qed
  qed
qed

lemma buildProvenance_returns:
  assumes "\<And>n. childChain (compositionMap e) kind n \<Longrightarrow> n \<le> h"
  shows "\<exists>out. buildProvenance (Suc h) e kind name level tree = Some out"
  using assms
proof (induction h arbitrary: kind name level tree)
  case 0
  show ?case
  proof (cases "map_of (compositionMap e) kind")
    case None
    then show ?thesis by simp
  next
    case (Some children)
    have "children = []"
    proof (cases children)
      case (Cons child rest)
      with Some have "childChain (compositionMap e) kind (Suc 0)"
        by (auto intro: chainStep chainEnd)
      from "0.prems" [OF this] show ?thesis by simp
    qed simp
    with Some show ?thesis by simp
  qed
next
  case (Suc h)
  show ?case
  proof (cases "map_of (compositionMap e) kind")
    case None
    then show ?thesis by simp
  next
    case (Some children)
    have "\<exists>out. buildChildKinds (Suc h) e name (level + 1) children tree = Some out"
    proof (rule buildChildKinds_returns)
      fix child name' level' tree'
      assume child: "child \<in> set children"
      show "\<exists>out. buildProvenance (Suc h) e child name' level' tree' = Some out"
      proof (rule Suc.IH)
        fix n
        assume "childChain (compositionMap e) child n"
        with Some child have "childChain (compositionMap e) kind (Suc n)"
          by (rule chainStep)
        from Suc.prems [OF this] show "n \<le> h" by simp
      qed
    qed
    with Some show ?thesis by simp
  qed
qed

subsection \<open>More stack frames change nothing\<close>

lemma buildChildren_more_frames:
  assumes "\<And>kind name level tree out.
      buildProvenance n e kind name level tree = Some out \<Longrightarrow>
      buildProvenance (Suc n) e kind name level tree = Some out"
    and "buildChildren n e kind level members tree = Some out"
  shows "buildChildren (Suc n) e kind level members tree = Some out"
  using assms(2)
proof (induction members arbitrary: tree)
  case Nil
  then show ?case by simp
next
  case (Cons m members)
  from Cons.prems obtain r where
    r: "buildProvenance n e kind (MetaDataName m) level tree = Some r"
    by (auto split: option.splits)
  from assms(1) [OF r] Cons.prems r Cons.IH show ?case
    by (cases r) auto
qed

lemma buildChildKinds_more_frames:
  assumes "\<And>kind name level tree out.
      buildProvenance n e kind name level tree = Some out \<Longrightarrow>
      buildProvenance (Suc n) e kind name level tree = Some out"
    and "buildChildKinds n e parentName level children tree = Some out"
  shows "buildChildKinds (Suc n) e parentName level children tree = Some out"
  using assms(2)
proof (induction children arbitrary: tree)
  case Nil
  then show ?case by simp
next
  case (Cons child children)
  show ?case
  proof (cases "listAndParse e (lookupString (kindVersionMap e) child)
                  (lookupString (KindPluralMap e) child)")
    case (Inl p)
    with Cons.prems show ?thesis by simp
  next
    case (Inr found)
    let ?kept = "filterChildren found parentName"
    let ?tree = "tree @ [\<lparr>Level = level, ChildKind = child, Children = ?kept\<rparr>]"
    from Cons.prems Inr obtain r where r: "buildChildren n e child level ?kept ?tree = Some r"
      by (auto simp: Let_def split: option.splits)
    from buildChildren_more_frames [OF assms(1) r]
    have r': "buildChildren (Suc n) e child level ?kept ?tree = Some r" .
    from Cons.prems Inr r r' Cons.IH show ?thesis
      by (cases r) (auto simp: Let_def)
  qed
qed

lemma buildProvenance_more_frames:
  "buildProvenance n e kind name level tree = Some out \<Longrightarrow>
   buildProvenance (Suc n) e kind name level tree = Some out"
proof (induction n arbitrary: kind name level tree out)
  case 0
  then show ?case by simp
next
  case (Suc n)
  show ?case
  proof (cases "map_of (compositionMap e) kind")
    case None
    with Suc.prems show ?thesis by simp
  next
    case (Some children)
    with Suc.prems have "buildChildKinds n e name (level + 1) children tree = Some out"
      by simp
    then have "buildChildKinds (Suc n) e name (level + 1) children tree = Some out"
      by (rule buildChildKinds_more_frames [rotated]) (rule Suc.IH)
    with Some show ?thesis by simp
  qed
qed

subsection \<open>Too few stack frames\<close>

lemma listAndParse_envX: "listAndParse (envX schema) version plural = Inr [objX]"
  by (simp add: listAndParse_def getResourceListContent_def envX_def listingX_def listing_def
      parseMetaData_def processMetadata_def objX_def emptyMetaDataRef_def)

lemma filterChildren_objX: "filterChildren [objX] ''x'' = [objX]"
  by (simp add: filterChildren_def objX_def)

lemma buildChildren_envX_no_panic:
  assumes "\<And>kind name level tree. buildProvenance n (envX schema) kind name level tree \<noteq> Some (Inl p)"
  shows "buildChildren n (envX schema) kind level members tree \<noteq> Some (Inl p)"
proof (induction members arbitrary: tree)
  case Nil
  show ?case by simp
next
  case (Cons m members)
  from assms [of kind "MetaDataName m" level tree] Cons.IH show ?case
    by (auto split: option.splits sum.splits)
qed

lemma buildChildKinds_envX_no_panic:
  assumes "\<And>kind name level tree. buildProvenance n (envX schema) kind name level tree \<noteq> Some (Inl p)"
  shows "buildChildKinds n (envX schema) parentName level children tree \<noteq> Some (Inl p)"
proof (induction children arbitrary: tree)
  case Nil
  show ?case by simp
next
  case (Cons child children)
  from buildChildren_envX_no_panic [OF assms] Cons.IH show ?case
    by (auto simp: listAndParse_envX Let_def split: option.splits sum.splits)
qed

lemma buildProvenance_envX_no_panic:
  "buildProvenance n (envX schema) kind name level tree \<noteq> Some (Inl p)"
proof (induction n arbitrary: kind name level tree)
  case 0
  show ?case by simp
next
  case (Suc n)
  from buildChildKinds_envX_no_panic [of n schema p, OF Suc.IH] show ?case
    by (auto split: option.splits)
qed

lemma buildChildKinds_envX_stuck:
  assumes "child \<in> set children"
    and "\<And>level tree. buildProvenance n (envX schema) child ''x'' level tree = None"
  shows "buildChildKinds n (envX schema) ''x'' level children tree = None"
  using assms(1)
proof (induction children arbitrary: tree)
  case Nil
  then show ?case by simp
next
  case (Cons c children)
  let ?tree = "tree @ [\<lparr>Level = level, ChildKind = c, Children = [objX]\<rparr>]"
  show ?case
  proof (cases "buildProvenance n (envX schema) c ''x'' level ?tree")
    case None
    then show ?thesis
      by (simp add: listAndParse_envX filterChildren_objX) (simp add: objX_def)
  next
    case (Some out)
    with assms(2) have "c \<noteq> child" by auto
    with Cons.prems have child: "child \<in> set children" by simp
    from Some buildProvenance_envX_no_panic obtain tree' where "out = Inr tree'"
      by (cases out) auto
    with Some Cons.IH [OF child, of tree'] show ?thesis
      by (simp add: listAndParse_envX filterChildren_objX) (simp add: objX_def)
  qed
qed

lemma buildProvenance_envX_stuck:
  "childChain schema kind n \<Longrightarrow> buildProvenance n (envX schema) kind ''x'' level tree = None"
proof (induction arbitrary: level tree rule: childChain.induct)
  case (chainEnd kind)
  show ?case by simp
next
  case (chainStep kind children child n)
  have "buildChildKinds n (envX schema) ''x'' (level + 1) children tree = None"
    by (rule buildChildKinds_envX_stuck [OF chainStep.hyps(2)]) (rule chainStep.IH)
  moreover have "compositionMap (envX schema) = schema" by (simp add: envX_def)
  ultimately show ?case using chainStep.hyps(1) by simp
qed

subsection \<open>The longest child-chain of a schema without cycles\<close>

lemma finite_childKinds: "finite (childKinds schema)"
proof (rule finite_subset)
  show "childKinds schema \<subseteq> (\<Union>(set ` snd ` set schema)) \<times> fst ` set schema"
    by (auto simp: childKinds_def dest!: map_of_SomeD intro: rev_image_eqI)
  show "finite ((\<Union>(set ` snd ` set schema)) \<times> fst ` set schema)"
    by simp
qed

lemma childChain_Suc:
  assumes "childChain schema kind (Suc n)"
  obtains children child where "map_of schema kind = Some children" "child \<in> set children"
    "childChain schema child n"
  using assms by cases auto

lemma common_bound:
  assumes "\<And>kind. kind \<in> set kinds \<Longrightarrow> \<exists>b. \<forall>n. childChain schema kind n \<longrightarrow> n \<le> b"
  shows "\<exists>b. \<forall>kind \<in> set kinds. \<forall>n. childChain schema kind n \<longrightarrow> n \<le> b"
  using assms
proof (induction kinds)
  case Nil
  show ?case by simp
next
  case (Cons kind kinds)
  from Cons.prems [of kind] obtain b1 where b1: "\<forall>n. childChain schema kind n \<longrightarrow> n \<le> b1"
    by auto
  from Cons.IH Cons.prems obtain b2 where
    b2: "\<forall>k \<in> set kinds. \<forall>n. childChain schema k n \<longrightarrow> n \<le> b2"
    by auto
  have "\<forall>k \<in> set (kind # kinds). \<forall>n. childChain schema k n \<longrightarrow> n \<le> max b1 b2"
    using b1 b2 by (auto simp: le_max_iff_disj)
  then show ?case ..
qed

lemma chains_bounded_from:
  assumes "acyclic (childKinds schema)"
  shows "\<exists>b. \<forall>n. childChain schema kind n \<longrightarrow> n \<le> b"
proof -
  from finite_childKinds assms have "wf (childKinds schema)"
    by (rule finite_acyclic_wf)
  then show ?thesis
  proof (induction kind rule: wf_induct_rule)
    case (less kind)
    show ?case
    proof (cases "map_of schema kind")
      case None
      have "\<forall>n. childChain schema kind n \<longrightarrow> n \<le> 0"
      proof (intro allI impI)
        fix n assume chain: "childChain schema kind n"
        show "n \<le> 0"
        proof (cases n)
          case (Suc m)
          with chain None show ?thesis by (auto elim: childChain_Suc)
        qed simp
      qed
      then show ?thesis ..
    next
      case (Some children)
      have "\<exists>b. \<forall>child \<in> set children. \<forall>n. childChain schema child n \<longrightarrow> n \<le> b"
      proof (rule common_bound)
        fix child assume "child \<in> set children"
        with Some have "(child, kind) \<in> childKinds schema"
          by (auto simp: childKinds_def)
        then show "\<exists>b. \<forall>n. childChain schema child n \<longrightarrow> n \<le> b" by (rule less.IH)
      qed
      then obtain b where b: "\<forall>child \<in> set children. \<forall>n. childChain schema child n \<longrightarrow> n \<le> b" ..
      have "\<forall>n. childChain schema kind n \<longrightarrow> n \<le> Suc b"
      proof (intro allI impI)
        fix n assume chain: "childChain schema kind n"
        show "n \<le> Suc b"
        proof (cases n)
          case (Suc m)
          with chain Some b show ?thesis by (auto elim!: childChain_Suc)
        qed simp
      qed
      then show ?thesis ..
    qed
  qed
qed

lemma chains_bounded:
  assumes "acyclic (childKinds schema)"
  shows "\<exists>b. \<forall>kind n. childChain schema kind n \<longrightarrow> n \<le> b"
proof -
  have "\<exists>b. \<forall>kind \<in> set (map fst schema). \<forall>n. childChain schema kind n \<longrightarrow> n \<le> b"
    by (rule common_bound) (rule chains_bounded_from [OF assms])
  then obtain b where b: "\<forall>kind \<in> set (map fst schema). \<forall>n. childChain schema kind n \<longrightarrow> n \<le> b" ..
  have "\<forall>kind n. childChain schema kind n \<longrightarrow> n \<le> b"
  proof (intro allI impI)
    fix kind n assume chain: "childChain schema kind n"
    show "n \<le> b"
    proof (cases n)
      case (Suc m)
      with chain obtain children where "map_of schema kind = Some children"
        by (auto elim: childChain_Suc)
      then have "kind \<in> set (map fst schema)"
        by (auto dest!: map_of_SomeD intro: rev_image_eqI)
      with b chain show ?thesis by blast
    qed simp
  qed
  then show ?thesis ..
qed

lemma longest_chain:
  assumes "acyclic (childKinds schema)"
  shows "\<exists>h. (\<exists>kind. childChain schema kind h) \<and> (\<forall>k n. childChain schema k n \<longrightarrow> n \<le> h)"
proof -
  let ?S = "{n. \<exists>kind. childChain schema kind n}"
  from chains_bounded [OF assms] obtain b where b: "\<forall>kind n. childChain schema kind n \<longrightarrow> n \<le> b" ..
  then have "?S \<subseteq> {..b}" by auto
  then have fin: "finite ?S" by (rule finite_subset) simp
  have ne: "?S \<noteq> {}" by (auto intro: chainEnd)
  from Max_in [OF fin ne] have "\<exists>kind. childChain schema kind (Max ?S)" by simp
  moreover have "\<forall>k n. childChain schema k n \<longrightarrow> n \<le> Max ?S"
    using fin by (auto intro!: Max_ge)
  ultimately show ?thesis by (intro exI [of _ "Max ?S"] conjI)
qed

text \<open>
  Claim C8. Let the schema have no cycle. Then its child-chains have a longest one, of
  some length \<open>h\<close>, and \<open>h\<close> is the greatest nesting depth of \<open>buildProvenance\<close>: with
  \<open>h + 1\<close> stack frames or more (the first call and \<open>h\<close> nested ones) the build returns for
  every cluster, starting kind, name, level and tree, while for some cluster and start
  \<open>h\<close> frames are not enough. A kind with an empty children declaration and a kind that is
  absent from the schema return in the first frame, with the tree unchanged.
\<close>

theorem buildProvenance_terminates_on_acyclic_schema:
  assumes "acyclic (childKinds schema)"
  shows "\<exists>h. (\<exists>kind. childChain schema kind h) \<and>
              (\<forall>kind n. childChain schema kind n \<longrightarrow> n \<le> h) \<and>
              (\<forall>e kind name level tree n. compositionMap e = schema \<longrightarrow> h \<le> n \<longrightarrow>
                 (\<exists>out. buildProvenance (Suc n) e kind name level tree = Some out)) \<and>
              (\<exists>e kind name level tree. compositionMap e = schema \<and>
                 buildProvenance h e kind name level tree = None) \<and>
              (\<forall>e kind name level tree. compositionMap e = schema \<longrightarrow>
                 map_of schema kind = None \<or> map_of schema kind = Some [] \<longrightarrow>
                 buildProvenance 1 e kind name level tree = Some (Inr tree))"
proof -
  from longest_chain [OF assms] obtain h where
    h: "(\<exists>kind. childChain schema kind h) \<and> (\<forall>k n. childChain schema k n \<longrightarrow> n \<le> h)" ..
  then obtain kind where chain: "childChain schema kind h" by (elim conjE exE)
  from h have longest: "n \<le> h" if "childChain schema k n" for k n
    using that by simp
  have enough: "\<exists>out. buildProvenance (Suc n) e k name level tree = Some out"
    if "compositionMap e = schema" "h \<le> n" for e k name level tree n
  proof (rule buildProvenance_returns)
    fix m
    assume "childChain (compositionMap e) k m"
    with that have "childChain schema k m" by simp
    then have "m \<le> h" by (rule longest)
    with that show "m \<le> n" by simp
  qed
  have stuck: "compositionMap (envX schema) = schema \<and>
      buildProvenance h (envX schema) kind ''x'' 1 [] = None"
    using buildProvenance_envX_stuck [OF chain] by (simp add: envX_def)
  have leaf: "buildProvenance (Suc 0) e k name level tree = Some (Inr tree)"
    if "compositionMap e = schema" "map_of schema k = None \<or> map_of schema k = Some []"
    for e k name level tree
  proof (cases "map_of schema k")
    case None
    with that(1) show ?thesis by simp
  next
    case (Some children)
    with that have "map_of (compositionMap e) k = Some []" by simp
    then show ?thesis by simp
  qed
  show ?thesis
  proof (intro exI [of _ h] conjI)
    show "\<exists>kind. childChain schema kind h"
      using chain ..
    show "\<forall>kind n. childChain schema kind n \<longrightarrow> n \<le> h"
      by (intro allI impI) (rule longest)
    show "\<forall>e kind name level tree n. compositionMap e = schema \<longrightarrow> h \<le> n \<longrightarrow>
            (\<exists>out. buildProvenance (Suc n) e kind name level tree = Some out)"
      by (intro allI impI) (rule enough)
    show "\<exists>e kind name level tree. compositionMap e = schema \<and>
            buildProvenance h e kind name level tree = None"
      by (intro exI) (rule stuck)
    show "\<forall>e kind name level tree. compositionMap e = schema \<longrightarrow>
            map_of schema kind = None \<or> map_of schema kind = Some [] \<longrightarrow>
            buildProvenance 1 e kind name level tree = Some (Inr tree)"
      unfolding One_nat_def by (intro allI impI) (rule leaf)
  qed
qed

lemma acyclic_AB: "acyclic (childKinds [(''A'', [''B'']), (''B'', [])])"
proof -
  have "childKinds [(''A'', [''B'']), (''B'', [])] = {(''B'', ''A'')}"
    by (auto simp: childKinds_def split: if_splits)
  moreover have "acyclic ({} :: (string \<times> string) set)"
    by (simp add: acyclic_def)
  ultimately show ?thesis by (simp add: acyclic_insert)
qed

theorem buildProvenance_terminates_on_acyclic_schema_witness:
  "acyclic (childKinds [(''A'', [''B'']), (''B'', [])]) \<and>
   (\<exists>h. (\<exists>kind. childChain [(''A'', [''B'']), (''B'', [])] kind h) \<and>
         (\<exists>out. buildProvenance (Suc h) envAB ''A'' ''a1'' 1 [] = Some out) \<and>
         (\<exists>e kind name level tree. compositionMap e = [(''A'', [''B'']), (''B'', [])] \<and>
            buildProvenance h e kind name level tree = None) \<and>
         buildProvenance 1 envAB ''B'' ''b1'' 2 treeA1 = Some (Inr treeA1))"
proof -
  have schema: "compositionMap envAB = [(''A'', [''B'']), (''B'', [])]"
    by (simp add: envAB_def)
  have leafB: "map_of [(''A'', [''B'']), (''B'', [])] ''B'' = None \<or>
               map_of [(''A'', [''B'']), (''B'', [])] ''B'' = Some []"
    by simp
  from buildProvenance_terminates_on_acyclic_schema [OF acyclic_AB] obtain h where
    h1: "\<exists>kind. childChain [(''A'', [''B'']), (''B'', [])] kind h" and
    h3: "\<forall>e kind name level tree n. compositionMap e = [(''A'', [''B'']), (''B'', [])] \<longrightarrow>
           h \<le> n \<longrightarrow> (\<exists>out. buildProvenance (Suc n) e kind name level tree = Some out)" and
    h4: "\<exists>e kind name level tree. compositionMap e = [(''A'', [''B'']), (''B'', [])] \<and>
           buildProvenance h e kind name level tree = None" and
    h5: "\<forall>e kind name level tree. compositionMap e = [(''A'', [''B'']), (''B'', [])] \<longrightarrow>
           map_of [(''A'', [''B'']), (''B'', [])] kind = None \<or>
           map_of [(''A'', [''B'']), (''B'', [])] kind = Some [] \<longrightarrow>
           buildProvenance 1 e kind name level tree = Some (Inr tree)"
    by blast
  from h3 schema have a: "\<exists>out. buildProvenance (Suc h) envAB ''A'' ''a1'' 1 [] = Some out"
    by (simp only: order_refl simp_thms)
  from h5 schema leafB have b: "buildProvenance 1 envAB ''B'' ''b1'' 2 treeA1 = Some (Inr treeA1)"
    by blast
  from h1 a h4 b have "\<exists>h. (\<exists>kind. childChain [(''A'', [''B'']), (''B'', [])] kind h) \<and>
         (\<exists>out. buildProvenance (Suc h) envAB ''A'' ''a1'' 1 [] = Some out) \<and>
         (\<exists>e kind name level tree. compositionMap e = [(''A'', [''B'']), (''B'', [])] \<and>
            buildProvenance h e kind name level tree = None) \<and>
         buildProvenance 1 envAB ''B'' ''b1'' 2 treeA1 = Some (Inr treeA1)"
    by (intro exI [of _ h] conjI)
  with acyclic_AB show ?thesis ..
qed

section \<open>Mutual exclusion on the store\<close>

lemma insideSection_Unlock: "insideSection (Unlock # rest) \<Longrightarrow> rest = []"
  by (cases rest) auto

lemma exclusive_iff:
  "exclusive (holder, todo) \<longleftrightarrow>
     (\<forall>j < length todo. if holder = Some j then insideSection (todo ! j)
                         else disciplined (todo ! j) \<or> todo ! j = [])"
  by (auto simp: exclusive_def list_all_iff)

lemma stepGoroutine_exclusive:
  assumes "exclusive s" and "stepGoroutine i s = Some s'"
  shows "exclusive s'"
proof -
  obtain holder todo where s: "s = (holder, todo)" by (cases s)
  from assms(2) s have i: "i < length todo" by (auto split: if_splits)
  from assms(1) s have inv: "\<And>j. j < length todo \<Longrightarrow>
      (if holder = Some j then insideSection (todo ! j)
       else disciplined (todo ! j) \<or> todo ! j = [])"
    by (simp add: exclusive_iff)
  show ?thesis
  proof (cases "todo ! i")
    case Nil
    with assms(2) s i show ?thesis by simp
  next
    case (Cons a rest)
    show ?thesis
    proof (cases a)
      case Lock
      with assms(2) s i Cons have holder: "holder = None" and s': "s' = (Some i, todo[i := rest])"
        by (auto split: if_splits)
      from inv [OF i] holder Cons Lock have "insideSection rest" by simp
      with inv holder i show ?thesis
        unfolding s' exclusive_iff by (auto simp: nth_list_update)
    next
      case Unlock
      with assms(2) s i Cons have holder: "holder = Some i" and s': "s' = (None, todo[i := rest])"
        by (auto split: if_splits)
      from inv [OF i] holder Cons Unlock have "rest = []"
        by (auto dest: insideSection_Unlock)
      with inv holder i show ?thesis
        unfolding s' exclusive_iff by (auto simp: nth_list_update split: if_splits)
    next
      case ReadCollection
      with assms(2) s i Cons have s': "s' = (holder, todo[i := rest])"
        by auto
      from inv [OF i] Cons ReadCollection have "holder = Some i" "insideSection rest"
        by (auto split: if_splits)
      with inv i show ?thesis
        unfolding s' exclusive_iff by (auto simp: nth_list_update)
    next
      case WriteCollection
      with assms(2) s i Cons have s': "s' = (holder, todo[i := rest])"
        by auto
      from inv [OF i] Cons WriteCollection have "holder = Some i" "insideSection rest"
        by (auto split: if_splits)
      with inv i show ?thesis
        unfolding s' exclusive_iff by (auto simp: nth_list_update)
    qed
  qed
qed

lemma runSchedule_exclusive:
  "exclusive s \<Longrightarrow> runSchedule schedule s = Some s' \<Longrightarrow> exclusive s'"
  by (induction schedule arbitrary: s)
     (auto split: option.splits dest: stepGoroutine_exclusive)

lemma exclusive_not_breaks: "exclusive s \<Longrightarrow> \<not> breaksExclusion s"
proof -
  obtain holder todo where s: "s = (holder, todo)" by (cases s)
  have "\<not> accessesCollection t" if "disciplined t \<or> t = []" for t
    using that by (cases t rule: disciplined.cases) auto
  then show "exclusive s \<Longrightarrow> \<not> breaksExclusion s"
    unfolding s exclusive_iff
    by (auto simp: breaksExclusion_def list_ex_iff split: option.splits if_splits)
qed

lemma disciplined_methods_exclude:
  assumes "list_all disciplined methods"
    and "runSchedule schedule (None, methods) = Some s"
  shows "\<not> breaksExclusion s"
proof -
  from assms(1) have "exclusive (None, methods)"
    by (simp add: exclusive_iff list_all_length)
  from runSchedule_exclusive [OF this assms(2)] show ?thesis
    by (rule exclusive_not_breaks)
qed

lemma locking_methods_disciplined:
  "list_all disciplined [storeProvenanceAccesses, GetProvenanceAccesses, PrintProvenanceAccesses,
     checkIfProvenanceNeededAccesses]"
  by (simp add: storeProvenanceAccesses_def GetProvenanceAccesses_def PrintProvenanceAccesses_def
      checkIfProvenanceNeededAccesses_def)

text \<open>
  Claim C9 asks that every operation on the collection holds the mutex for its duration.
  \<open>storeProvenance\<close>, \<open>GetProvenance\<close> and \<open>PrintProvenance\<close> do, and goroutines that run
  only such methods never break mutual exclusion (\<open>disciplined_methods_exclude\<close>).
  \<open>purgeCompositionOfDeletedItems\<close> does not: it accesses the collection without the
  mutex. With a query in goroutine \<open>0\<close> and the purge in goroutine \<open>1\<close>: once the query
  has taken the mutex, the purge can read the collection and replace it while the query
  still holds the mutex and has its own read before it.
\<close>

theorem purge_runs_without_the_lock:
  "lockHeldAtAccesses False storeProvenanceAccesses \<and>
   lockHeldAtAccesses False GetProvenanceAccesses \<and>
   lockHeldAtAccesses False PrintProvenanceAccesses \<and>
   \<not> lockHeldAtAccesses False purgeCompositionOfDeletedItemsAccesses \<and>
   runSchedule [0] (None, [GetProvenanceAccesses, purgeCompositionOfDeletedItemsAccesses]) =
     Some (Some 0, [[ReadCollection, Unlock], [ReadCollection, WriteCollection]]) \<and>
   breaksExclusion (Some 0, [[ReadCollection, Unlock], [ReadCollection, WriteCollection]]) \<and>
   runSchedule [1, 1] (Some 0, [[ReadCollection, Unlock], [ReadCollection, WriteCollection]]) =
     Some (Some 0, [[ReadCollection, Unlock], []])"
  by (simp add: storeProvenanceAccesses_def GetProvenanceAccesses_def PrintProvenanceAccesses_def
      purgeCompositionOfDeletedItemsAccesses_def breaksExclusion_def)

end
